theory Spec2Isabelle
  imports Main "HOL-Library.Sublist"
begin

section \<open>Strings\<close>

text \<open>
  Identifiers, names and type strings are modelled as \<^typ>\<open>string\<close>. The model covers
  ASCII text: the case mappings act on the letters a-z / A-Z and leave every other
  character as it is, and \<open>trim\<close> strips the white space characters of the Latin-1 range.
\<close>

definition isWhiteSpace :: "char \<Rightarrow> bool" where
  "isWhiteSpace c =
     (c \<in> set [CHR 0x09, CHR 0x0A, CHR 0x0B, CHR 0x0C, CHR 0x0D, CHR 0x20, CHR 0xA0])"

text \<open>\<^verbatim>\<open>String.prototype.trim\<close>\<close>

definition trim :: "string \<Rightarrow> string" where
  "trim s = rev (dropWhile isWhiteSpace (rev (dropWhile isWhiteSpace s)))"

definition lowerLetters :: string where
  "lowerLetters = ''abcdefghijklmnopqrstuvwxyz''"

definition upperLetters :: string where
  "upperLetters = ''ABCDEFGHIJKLMNOPQRSTUVWXYZ''"

definition upperChar :: "char \<Rightarrow> char" where
  "upperChar c = (case map_of (zip lowerLetters upperLetters) c of Some u \<Rightarrow> u | None \<Rightarrow> c)"

definition lowerChar :: "char \<Rightarrow> char" where
  "lowerChar c = (case map_of (zip upperLetters lowerLetters) c of Some l \<Rightarrow> l | None \<Rightarrow> c)"

definition toUpperCase :: "string \<Rightarrow> string" where
  "toUpperCase s = map upperChar s"

definition toLowerCase :: "string \<Rightarrow> string" where
  "toLowerCase s = map lowerChar s"

text \<open>\<^verbatim>\<open>s.split(sep)[0]\<close> for a one-character separator: the text before its first occurrence.\<close>

definition splitHead :: "char \<Rightarrow> string \<Rightarrow> string" where
  "splitHead sep s = takeWhile (\<lambda>c. c \<noteq> sep) s"

text \<open>\<^verbatim>\<open>xs.join(sep)\<close>\<close>

fun join :: "string \<Rightarrow> string list \<Rightarrow> string" where
  "join sep [] = []"
| "join sep [x] = x"
| "join sep (x # y # ys) = x @ sep @ join sep (y # ys)"

text \<open>The separator \<^verbatim>\<open>' -> '\<close> of the cycle message, whose arrow is U+2192 (here in UTF-8).\<close>

definition arrowSep :: string where
  "arrowSep = [CHR 0x20, CHR 0xE2, CHR 0x86, CHR 0x92, CHR 0x20]"

text \<open>\<^verbatim>\<open>'${s}'\<close>: a value between single quotes inside a message template.\<close>

definition quoted :: "string \<Rightarrow> string" where
  "quoted s = CHR 0x27 # s @ [CHR 0x27]"


section \<open>Data model\<close>

text \<open>
  Each class is a record with the fields of the class. Field names that several classes
  share carry the class as a prefix (\<open>col_id\<close>, \<open>tab_id\<close>, \<open>rel_id\<close> for \<^verbatim>\<open>id\<close>, and so on
  for \<^verbatim>\<open>name\<close>, \<^verbatim>\<open>type\<close> and \<^verbatim>\<open>comment\<close>); an optional field is an \<open>option\<close>.
\<close>

text \<open>\<^verbatim>\<open>Column\<close> (models/Column.ts)\<close>

record Column =
  col_id :: string
  col_name :: string
  col_type :: string
  nullable :: bool
  primaryKey :: bool
  foreignKey :: bool
  unique :: bool
  autoIncrement :: bool
  defaultValue :: "string option"
  col_comment :: "string option"

text \<open>\<^verbatim>\<open>Index\<close>, \<^verbatim>\<open>Constraint\<close>, \<^verbatim>\<open>Point\<close> and \<^verbatim>\<open>Table\<close> (models/Table.ts). Coordinates are
  only carried along, never computed with.\<close>

record Index =
  idx_name :: string
  idx_columns :: "string list"
  idx_unique :: bool

datatype ConstraintType = CHECK | UNIQUE | FOREIGN_KEY

record Constraint =
  con_type :: ConstraintType
  definition_text :: string

record Point =
  px :: int
  py :: int

record Table =
  tab_id :: string
  tab_name :: string
  position :: Point
  columns :: "Column list"
  indexes :: "Index list"
  constraints :: "Constraint list"
  tab_comment :: "string option"

text \<open>\<^verbatim>\<open>Relationship\<close> (models/Relationship.ts)\<close>

datatype RelationType = OneToOne | OneToMany | ManyToMany

datatype ReferentialAction = CASCADE | SET_NULL | RESTRICT | NO_ACTION

record Relationship =
  rel_id :: string
  rel_name :: "string option"
  rel_type :: RelationType
  sourceTableId :: string
  targetTableId :: string
  sourceColumnId :: string
  targetColumnId :: string
  onDelete :: "ReferentialAction option"
  onUpdate :: "ReferentialAction option"
  rel_comment :: "string option"

text \<open>
  A JavaScript \<^verbatim>\<open>Map\<close> iterates in insertion order, and the validation passes depend on that
  order, so a map is an association list in insertion order. In a \<^verbatim>\<open>Map\<close> every key occurs
  once; \<open>Map_set\<close> overwrites in place or appends, \<open>Map_delete\<close> drops the key.
\<close>

type_synonym ('k, 'v) JsMap = "('k \<times> 'v) list"

fun Map_get :: "('k, 'v) JsMap \<Rightarrow> 'k \<Rightarrow> 'v option" where
  "Map_get [] k = None"
| "Map_get ((k', v) # m) k = (if k' = k then Some v else Map_get m k)"

fun Map_set :: "'k \<Rightarrow> 'v \<Rightarrow> ('k, 'v) JsMap \<Rightarrow> ('k, 'v) JsMap" where
  "Map_set k v [] = [(k, v)]"
| "Map_set k v ((k', v') # m) = (if k' = k then (k, v) # m else (k', v') # Map_set k v m)"

fun Map_delete :: "'k \<Rightarrow> ('k, 'v) JsMap \<Rightarrow> ('k, 'v) JsMap" where
  "Map_delete k [] = []"
| "Map_delete k ((k', v') # m) = (if k' = k then m else (k', v') # Map_delete k m)"

definition Map_values :: "('k, 'v) JsMap \<Rightarrow> 'v list" where
  "Map_values m = map snd m"

definition Map_keys :: "('k, 'v) JsMap \<Rightarrow> 'k list" where
  "Map_keys m = map fst m"

text \<open>\<^verbatim>\<open>Schema\<close> (models/Schema.ts); the metadata record is opaque to the core.\<close>

record Schema =
  schema_name :: string
  tables :: "(string, Table) JsMap"
  relationships :: "(string, Relationship) JsMap"
  metadata :: "(string \<times> string) list"

text \<open>\<^verbatim>\<open>ValidationError\<close>, \<^verbatim>\<open>ValidationWarning\<close> (the same shape) and \<^verbatim>\<open>ValidationResult\<close>\<close>

record ValidationError =
  code :: string
  message :: string
  field :: "string option"
  suggestion :: "string option"

type_synonym ValidationWarning = ValidationError

record ValidationResult =
  valid :: bool
  errors :: "ValidationError list"
  warnings :: "ValidationWarning list"


section \<open>Type compatibility (Relationship.areTypesCompatible)\<close>

definition normalize_type :: "string \<Rightarrow> string" where
  "normalize_type t = toUpperCase (trim (splitHead (CHR ''('') t))"

definition numericTypes :: "string list" where
  "numericTypes = [''INT'', ''INTEGER'', ''BIGINT'', ''SMALLINT'', ''TINYINT'',
                   ''DECIMAL'', ''NUMERIC'', ''FLOAT'', ''DOUBLE'', ''NUMBER'']"

definition stringTypes :: "string list" where
  "stringTypes = [''VARCHAR'', ''CHAR'', ''TEXT'', ''STRING'', ''CLOB'']"

definition dateTypes :: "string list" where
  "dateTypes = [''DATE'', ''DATETIME'', ''TIMESTAMP'', ''TIME'']"

definition areTypesCompatible :: "string \<Rightarrow> string \<Rightarrow> bool" where
  "areTypesCompatible type1 type2 =
     (let t1 = normalize_type type1; t2 = normalize_type type2 in
      if t1 = t2 then True
      else if List.member numericTypes t1 \<and> List.member numericTypes t2 then True
      else if List.member stringTypes t1 \<and> List.member stringTypes t2 then True
      else if List.member dateTypes t1 \<and> List.member dateTypes t2 then True
      else False)"



section \<open>Table and Schema operations\<close>

definition addColumn :: "Column \<Rightarrow> Table \<Rightarrow> Table" where
  "addColumn column t = t\<lparr>columns := columns t @ [column]\<rparr>"

definition getColumn :: "Table \<Rightarrow> string \<Rightarrow> Column option" where
  "getColumn t columnId = find (\<lambda>c. col_id c = columnId) (columns t)"

definition getPrimaryKeys :: "Table \<Rightarrow> Column list" where
  "getPrimaryKeys t = filter primaryKey (columns t)"

definition new_Table :: "string \<Rightarrow> string \<Rightarrow> int \<Rightarrow> int \<Rightarrow> Table" where
  "new_Table i n x y =
     \<lparr>tab_id = i, tab_name = n, position = \<lparr>px = x, py = y\<rparr>, columns = [],
      indexes = [], constraints = [], tab_comment = None\<rparr>"

definition new_Schema :: Schema where
  "new_Schema = \<lparr>schema_name = ''Untitled Schema'', tables = [], relationships = [], metadata = []\<rparr>"

definition addTable :: "Table \<Rightarrow> Schema \<Rightarrow> Schema" where
  "addTable t s = s\<lparr>tables := Map_set (tab_id t) t (tables s)\<rparr>"

definition getTable :: "Schema \<Rightarrow> string \<Rightarrow> Table option" where
  "getTable s i = Map_get (tables s) i"

definition addRelationship :: "Relationship \<Rightarrow> Schema \<Rightarrow> Schema" where
  "addRelationship r s = s\<lparr>relationships := Map_set (rel_id r) r (relationships s)\<rparr>"

definition removeRelationship :: "string \<Rightarrow> Schema \<Rightarrow> Schema" where
  "removeRelationship i s = s\<lparr>relationships := Map_delete i (relationships s)\<rparr>"

definition getRelationship :: "Schema \<Rightarrow> string \<Rightarrow> Relationship option" where
  "getRelationship s i = Map_get (relationships s) i"

text \<open>
  \<^verbatim>\<open>removeTable\<close>: delete the table, collect the keys of the relationships that touch it,
  then delete those keys one by one.
\<close>

definition removeTable :: "string \<Rightarrow> Schema \<Rightarrow> Schema" where
  "removeTable i s =
     (let s1 = s\<lparr>tables := Map_delete i (tables s)\<rparr>;
          toDelete = fold (\<lambda>(relId, rel) acc.
                        if sourceTableId rel = i \<or> targetTableId rel = i then acc @ [relId] else acc)
                      (relationships s1) []
      in fold (\<lambda>relId sch. sch\<lparr>relationships := Map_delete relId (relationships sch)\<rparr>) toDelete s1)"


section \<open>Serialization\<close>

text \<open>
  The plain objects that \<^verbatim>\<open>toJSON\<close> builds and \<^verbatim>\<open>fromJSON\<close> reads. A field that
  \<^verbatim>\<open>fromJSON\<close> reads with a default (\<^verbatim>\<open>??\<close>, \<^verbatim>\<open>||\<close>) may be absent.
\<close>

record ColumnJSON =
  cj_id :: string
  cj_name :: string
  cj_type :: string
  cj_nullable :: "bool option"
  cj_primaryKey :: "bool option"
  cj_foreignKey :: "bool option"
  cj_unique :: "bool option"
  cj_autoIncrement :: "bool option"
  cj_defaultValue :: "string option"
  cj_comment :: "string option"

record TableJSON =
  tj_id :: string
  tj_name :: string
  tj_position :: Point
  tj_columns :: "ColumnJSON list option"
  tj_indexes :: "Index list option"
  tj_constraints :: "Constraint list option"
  tj_comment :: "string option"

record RelationshipJSON =
  rj_id :: string
  rj_name :: "string option"
  rj_type :: RelationType
  rj_sourceTableId :: string
  rj_targetTableId :: string
  rj_sourceColumnId :: string
  rj_targetColumnId :: string
  rj_onDelete :: "ReferentialAction option"
  rj_onUpdate :: "ReferentialAction option"
  rj_comment :: "string option"

record SchemaJSON =
  sj_name :: "string option"
  sj_tables :: "TableJSON list option"
  sj_relationships :: "RelationshipJSON list option"
  sj_metadata :: "(string \<times> string) list option"

text \<open>\<^verbatim>\<open>a ?? d\<close> and \<^verbatim>\<open>xs || []\<close> (an array is never falsy)\<close>

definition orDefault :: "'a option \<Rightarrow> 'a \<Rightarrow> 'a" where
  "orDefault a d = (case a of None \<Rightarrow> d | Some v \<Rightarrow> v)"

definition Column_toJSON :: "Column \<Rightarrow> ColumnJSON" where
  "Column_toJSON c =
     \<lparr>cj_id = col_id c, cj_name = col_name c, cj_type = col_type c,
      cj_nullable = Some (nullable c), cj_primaryKey = Some (primaryKey c),
      cj_foreignKey = Some (foreignKey c), cj_unique = Some (unique c),
      cj_autoIncrement = Some (autoIncrement c), cj_defaultValue = defaultValue c,
      cj_comment = col_comment c\<rparr>"

definition Column_fromJSON :: "ColumnJSON \<Rightarrow> Column" where
  "Column_fromJSON j =
     \<lparr>col_id = cj_id j, col_name = cj_name j, col_type = cj_type j,
      nullable = orDefault (cj_nullable j) True,
      primaryKey = orDefault (cj_primaryKey j) False,
      foreignKey = orDefault (cj_foreignKey j) False,
      unique = orDefault (cj_unique j) False,
      autoIncrement = orDefault (cj_autoIncrement j) False,
      defaultValue = cj_defaultValue j, col_comment = cj_comment j\<rparr>"

definition Table_toJSON :: "Table \<Rightarrow> TableJSON" where
  "Table_toJSON t =
     \<lparr>tj_id = tab_id t, tj_name = tab_name t, tj_position = position t,
      tj_columns = Some (map Column_toJSON (columns t)),
      tj_indexes = Some (indexes t), tj_constraints = Some (constraints t),
      tj_comment = tab_comment t\<rparr>"

definition Table_fromJSON :: "TableJSON \<Rightarrow> Table" where
  "Table_fromJSON j =
     (let table = new_Table (tj_id j) (tj_name j) (px (tj_position j)) (py (tj_position j));
          table1 = table\<lparr>tab_comment := tj_comment j\<rparr>;
          table2 = table1\<lparr>indexes := orDefault (tj_indexes j) []\<rparr>;
          table3 = table2\<lparr>constraints := orDefault (tj_constraints j) []\<rparr>
      in fold (\<lambda>colData tb. addColumn (Column_fromJSON colData) tb)
           (orDefault (tj_columns j) []) table3)"

definition Relationship_toJSON :: "Relationship \<Rightarrow> RelationshipJSON" where
  "Relationship_toJSON r =
     \<lparr>rj_id = rel_id r, rj_name = rel_name r, rj_type = rel_type r,
      rj_sourceTableId = sourceTableId r, rj_targetTableId = targetTableId r,
      rj_sourceColumnId = sourceColumnId r, rj_targetColumnId = targetColumnId r,
      rj_onDelete = onDelete r, rj_onUpdate = onUpdate r, rj_comment = rel_comment r\<rparr>"

definition Relationship_fromJSON :: "RelationshipJSON \<Rightarrow> Relationship" where
  "Relationship_fromJSON j =
     \<lparr>rel_id = rj_id j, rel_name = rj_name j, rel_type = rj_type j,
      sourceTableId = rj_sourceTableId j, targetTableId = rj_targetTableId j,
      sourceColumnId = rj_sourceColumnId j, targetColumnId = rj_targetColumnId j,
      onDelete = rj_onDelete j, onUpdate = rj_onUpdate j, rel_comment = rj_comment j\<rparr>"

definition Schema_toJSON :: "Schema \<Rightarrow> SchemaJSON" where
  "Schema_toJSON s =
     \<lparr>sj_name = Some (schema_name s),
      sj_tables = Some (map Table_toJSON (Map_values (tables s))),
      sj_relationships = Some (map Relationship_toJSON (Map_values (relationships s))),
      sj_metadata = Some (metadata s)\<rparr>"

text \<open>\<^verbatim>\<open>json.name || 'Untitled Schema'\<close>: an absent or empty name gives the default.\<close>

definition Schema_fromJSON :: "SchemaJSON \<Rightarrow> Schema" where
  "Schema_fromJSON j =
     (let schema = new_Schema;
          schema1 = schema\<lparr>schema_name :=
                      (case sj_name j of None \<Rightarrow> ''Untitled Schema''
                       | Some n \<Rightarrow> if n = [] then ''Untitled Schema'' else n)\<rparr>;
          schema2 = schema1\<lparr>metadata := orDefault (sj_metadata j) []\<rparr>;
          schema3 = fold (\<lambda>tableData sch. addTable (Table_fromJSON tableData) sch)
                      (orDefault (sj_tables j) []) schema2
      in fold (\<lambda>relData sch. addRelationship (Relationship_fromJSON relData) sch)
           (orDefault (sj_relationships j) []) schema3)"



section \<open>Relationship validator (Relationship.validate)\<close>

definition Relationship_validate :: "Relationship \<Rightarrow> Schema \<Rightarrow> ValidationResult" where
  "Relationship_validate r schema =
     (let sourceTable = getTable schema (sourceTableId r);
          targetTable = getTable schema (targetTableId r);
          errors1 = (if sourceTable = None then
             [\<lparr>code = ''SOURCE_TABLE_NOT_FOUND'',
               message = ''Source table with ID '' @ quoted (sourceTableId r) @ '' not found'',
               field = Some ''sourceTableId'',
               suggestion = Some ''Remove this relationship or restore the source table''\<rparr>]
             else []);
          errors2 = errors1 @ (if targetTable = None then
             [\<lparr>code = ''TARGET_TABLE_NOT_FOUND'',
               message = ''Target table with ID '' @ quoted (targetTableId r) @ '' not found'',
               field = Some ''targetTableId'',
               suggestion = Some ''Remove this relationship or restore the target table''\<rparr>]
             else [])
      in case sourceTable of
           None \<Rightarrow> \<lparr>valid = False, errors = errors2, warnings = []\<rparr>
         | Some st \<Rightarrow>
        (case targetTable of
           None \<Rightarrow> \<lparr>valid = False, errors = errors2, warnings = []\<rparr>
         | Some tt \<Rightarrow>
        (let sourceColumn = getColumn st (sourceColumnId r);
             targetColumn = getColumn tt (targetColumnId r);
             errors3 = errors2 @ (if sourceColumn = None then
               [\<lparr>code = ''SOURCE_COLUMN_NOT_FOUND'',
                 message = ''Source column with ID '' @ quoted (sourceColumnId r) @
                           '' not found in table '' @ quoted (tab_name st),
                 field = Some ''sourceColumnId'',
                 suggestion = Some ''Select a valid column from the source table''\<rparr>]
               else []);
             errors4 = errors3 @ (if targetColumn = None then
               [\<lparr>code = ''TARGET_COLUMN_NOT_FOUND'',
                 message = ''Target column with ID '' @ quoted (targetColumnId r) @
                           '' not found in table '' @ quoted (tab_name tt),
                 field = Some ''targetColumnId'',
                 suggestion = Some ''Select a valid column from the target table''\<rparr>]
               else [])
         in case sourceColumn of
              None \<Rightarrow> \<lparr>valid = False, errors = errors4, warnings = []\<rparr>
            | Some sc \<Rightarrow>
           (case targetColumn of
              None \<Rightarrow> \<lparr>valid = False, errors = errors4, warnings = []\<rparr>
            | Some tc \<Rightarrow>
           (let errors5 = errors4 @ (if \<not> areTypesCompatible (col_type sc) (col_type tc) then
                  [\<lparr>code = ''TYPE_MISMATCH'',
                    message = ''Column types are incompatible: '' @ quoted (col_type sc) @
                              '' and '' @ quoted (col_type tc),
                    field = Some ''sourceColumnId'',
                    suggestion = Some ''Ensure both columns have compatible data types''\<rparr>]
                  else []);
                warnings1 = (if \<not> primaryKey tc \<and> \<not> unique tc then
                  [\<lparr>code = ''TARGET_NOT_PRIMARY_KEY'',
                    message = ''Target column '' @ quoted (col_name tc) @
                              '' is not a primary key or unique'',
                    field = Some ''targetColumnId'',
                    suggestion = Some ''Consider making the target column a primary key or unique''\<rparr>]
                  else []);
                warnings2 = warnings1 @ (if \<not> primaryKey sc \<and> \<not> unique sc then
                  [\<lparr>code = ''SOURCE_NO_INDEX'',
                    message = ''Source column '' @ quoted (col_name sc) @
                              '' should have an index for better performance'',
                    field = Some ''sourceColumnId'',
                    suggestion = Some ''Add an index on the source column''\<rparr>]
                  else []);
                expectedName = toLowerCase (tab_name tt) @ ''_id'';
                warnings3 = warnings2 @
                  (if (rel_type r = OneToMany \<or> rel_type r = ManyToMany) \<and>
                      toLowerCase (col_name sc) \<noteq> expectedName then
                  [\<lparr>code = ''NAMING_CONVENTION'',
                    message = ''Foreign key column '' @ quoted (col_name sc) @
                              '' doesn'' @ [CHR 0x27] @ ''t follow naming convention'',
                    field = Some ''sourceColumnId'',
                    suggestion = Some (''Consider renaming to '' @ quoted expectedName)\<rparr>]
                  else [])
            in \<lparr>valid = (errors5 = []), errors = errors5, warnings = warnings3\<rparr>)))))"


section \<open>Schema validation engine (services/ValidationEngine.ts)\<close>

definition isNumericType :: "string \<Rightarrow> bool" where
  "isNumericType t = List.member numericTypes (toUpperCase (trim (splitHead (CHR ''('') t)))"

text \<open>
  The column loop of \<^verbatim>\<open>validateTables\<close>: the lower-cased names seen so far and the errors
  collected so far are threaded through.
\<close>

fun validateTables_columns ::
  "Table \<Rightarrow> Column list \<Rightarrow> string set \<Rightarrow> ValidationError list \<Rightarrow> ValidationError list" where
  "validateTables_columns t [] columnNames errs = errs"
| "validateTables_columns t (column # cs) columnNames errs =
     (let errs1 = errs @ (if toLowerCase (col_name column) \<in> columnNames then
            [\<lparr>code = ''DUPLICATE_COLUMN_NAME'',
              message = ''Duplicate column name '' @ quoted (col_name column) @
                        '' in table '' @ quoted (tab_name t),
              field = Some (col_id column),
              suggestion = Some ''Rename one of the columns with duplicate names''\<rparr>]
            else []);
          columnNames1 = insert (toLowerCase (col_name column)) columnNames;
          errs2 = errs1 @ (if col_name column = [] \<or> trim (col_name column) = [] then
            [\<lparr>code = ''EMPTY_COLUMN_NAME'',
              message = ''Column in table '' @ quoted (tab_name t) @ '' has empty name'',
              field = Some (col_id column),
              suggestion = Some ''Provide a name for the column''\<rparr>]
            else []);
          errs3 = errs2 @ (if col_type column = [] \<or> trim (col_type column) = [] then
            [\<lparr>code = ''EMPTY_COLUMN_TYPE'',
              message = ''Column '' @ quoted (col_name column) @ '' in table '' @
                        quoted (tab_name t) @ '' has empty type'',
              field = Some (col_id column),
              suggestion = Some ''Specify a data type for the column''\<rparr>]
            else []);
          errs4 = errs3 @ (if primaryKey column \<and> nullable column then
            [\<lparr>code = ''PRIMARY_KEY_NULLABLE'',
              message = ''Primary key column '' @ quoted (col_name column) @ '' in table '' @
                        quoted (tab_name t) @ '' cannot be nullable'',
              field = Some (col_id column),
              suggestion = Some ''Set the column as NOT NULL''\<rparr>]
            else []);
          errs5 = errs4 @ (if autoIncrement column \<and> \<not> isNumericType (col_type column) then
            [\<lparr>code = ''AUTO_INCREMENT_NON_NUMERIC'',
              message = ''Auto increment column '' @ quoted (col_name column) @ '' in table '' @
                        quoted (tab_name t) @ '' must be numeric'',
              field = Some (col_id column),
              suggestion = Some ''Change the column type to a numeric type (INT, BIGINT, etc.)''\<rparr>]
            else [])
      in validateTables_columns t cs columnNames1 errs5)"

text \<open>The table loop of \<^verbatim>\<open>validateTables\<close>, over \<^verbatim>\<open>schema.tables.values()\<close>.\<close>

fun validateTables_loop ::
  "Table list \<Rightarrow> string set \<Rightarrow> ValidationError list \<Rightarrow> ValidationError list" where
  "validateTables_loop [] tableNames errs = errs"
| "validateTables_loop (t # ts) tableNames errs =
     (let errs1 = errs @ (if toLowerCase (tab_name t) \<in> tableNames then
            [\<lparr>code = ''DUPLICATE_TABLE_NAME'',
              message = ''Duplicate table name: '' @ quoted (tab_name t),
              field = Some (tab_id t),
              suggestion = Some ''Rename one of the tables with duplicate names''\<rparr>]
            else []);
          tableNames1 = insert (toLowerCase (tab_name t)) tableNames;
          errs2 = errs1 @ (if tab_name t = [] \<or> trim (tab_name t) = [] then
            [\<lparr>code = ''TABLE_EMPTY_NAME'',
              message = ''Table has empty name'',
              field = Some (tab_id t),
              suggestion = Some ''Provide a name for the table''\<rparr>]
            else []);
          errs3 = errs2 @ (if length (columns t) = 0 then
            [\<lparr>code = ''TABLE_NO_COLUMNS'',
              message = ''Table '' @ quoted (tab_name t) @ '' has no columns'',
              field = Some (tab_id t),
              suggestion = Some ''Add at least one column to the table''\<rparr>]
            else []);
          errs4 = errs3 @ (if length (getPrimaryKeys t) = 0 then
            [\<lparr>code = ''TABLE_NO_PRIMARY_KEY'',
              message = ''Table '' @ quoted (tab_name t) @ '' has no primary key'',
              field = Some (tab_id t),
              suggestion = Some ''Add a primary key to the table''\<rparr>]
            else []);
          errs5 = validateTables_columns t (columns t) {} errs4
      in validateTables_loop ts tableNames1 errs5)"

definition validateTables :: "Schema \<Rightarrow> ValidationResult" where
  "validateTables s =
     (let errs = validateTables_loop (Map_values (tables s)) {} []
      in \<lparr>valid = (errs = []), errors = errs, warnings = []\<rparr>)"

definition validateRelationships :: "Schema \<Rightarrow> ValidationResult" where
  "validateRelationships s =
     (let (errs, warns) =
        fold (\<lambda>relationship (es, ws).
                let result = Relationship_validate relationship s
                in (es @ errors result, ws @ warnings result))
             (Map_values (relationships s)) ([], [])
      in \<lparr>valid = (errs = []), errors = errs, warnings = warns\<rparr>)"



subsection \<open>Circular-dependency pass\<close>

text \<open>\<^verbatim>\<open>path.indexOf(x)\<close> (-1 when absent) and \<^verbatim>\<open>path.slice(start)\<close> (a negative start counts
  from the end).\<close>

fun indexOf :: "'a list \<Rightarrow> 'a \<Rightarrow> int" where
  "indexOf [] x = - 1"
| "indexOf (y # ys) x =
     (if y = x then 0 else (let i = indexOf ys x in if i < 0 then - 1 else i + 1))"

definition slice_from :: "'a list \<Rightarrow> int \<Rightarrow> 'a list" where
  "slice_from xs start =
     (let len = int (length xs);
          k = (if start < 0 then max (len + start) 0 else min start len)
      in drop (nat k) xs)"

text \<open>The mutable state of the traversal: the two sets and the warnings pushed so far.\<close>

record DfsState =
  visited :: "string set"
  recursionStack :: "string set"
  dfs_warnings :: "ValidationWarning list"

text \<open>A \<^verbatim>\<open>for\<close> loop whose body may fail to return.\<close>

fun forEachM :: "('a \<Rightarrow> 's \<Rightarrow> 's option) \<Rightarrow> 'a list \<Rightarrow> 's \<Rightarrow> 's option" where
  "forEachM f [] st = Some st"
| "forEachM f (x # xs) st = (case f x st of None \<Rightarrow> None | Some st' \<Rightarrow> forEachM f xs st')"

text \<open>
  The closure \<^verbatim>\<open>hasCycle\<close>. The recursion is not structural, so the model carries a bound on
  the depth of the nested calls that open a new table; \<open>None\<close> means the bound was too small.
  The two early returns need no depth.
\<close>

fun hasCycle ::
  "nat \<Rightarrow> Schema \<Rightarrow> string \<Rightarrow> string list \<Rightarrow> DfsState \<Rightarrow> (bool \<times> DfsState) option" where
  "hasCycle depth schema tableId path st =
     (if tableId \<in> recursionStack st then
        (let cycleStart = indexOf path tableId;
             cyclePath = join arrowSep
               (map (\<lambda>i. case getTable schema i of Some table \<Rightarrow> tab_name table | None \<Rightarrow> i)
                    (slice_from path cycleStart))
         in Some (True, st\<lparr>dfs_warnings := dfs_warnings st @
              [\<lparr>code = ''CIRCULAR_DEPENDENCY'',
                message = ''Circular dependency detected: '' @ cyclePath,
                field = Some tableId,
                suggestion = Some ''Review the relationships to break the circular dependency''\<rparr>]\<rparr>))
      else if tableId \<in> visited st then Some (False, st)
      else
        (case depth of
           0 \<Rightarrow> None
         | Suc d \<Rightarrow>
            (let st1 = st\<lparr>visited := insert tableId (visited st)\<rparr>;
                 st2 = st1\<lparr>recursionStack := insert tableId (recursionStack st1)\<rparr>;
                 path1 = path @ [tableId]
             in case forEachM (\<lambda>rel s'.
                       if sourceTableId rel = tableId
                       then map_option snd (hasCycle d schema (targetTableId rel) path1 s')
                       else Some s')
                     (Map_values (relationships schema)) st2 of
                  None \<Rightarrow> None
                | Some st3 \<Rightarrow>
                    Some (False, st3\<lparr>recursionStack := recursionStack st3 - {tableId}\<rparr>))))"

declare hasCycle.simps [simp del]

definition checkCircularDependencies_depth :: "nat \<Rightarrow> Schema \<Rightarrow> ValidationResult option" where
  "checkCircularDependencies_depth depth s =
     (case forEachM (\<lambda>tableId st.
               if tableId \<notin> visited st then map_option snd (hasCycle depth s tableId [] st)
               else Some st)
             (Map_keys (tables s))
             \<lparr>visited = {}, recursionStack = {}, dfs_warnings = []\<rparr> of
        None \<Rightarrow> None
      | Some st \<Rightarrow> Some \<lparr>valid = True, errors = [], warnings = dfs_warnings st\<rparr>)"

text \<open>Every nested call below the first opens a table that is the target of a relationship,
  each at most once, so one more than the number of relationships bounds the depth.\<close>

definition checkCircularDependencies :: "Schema \<Rightarrow> ValidationResult option" where
  "checkCircularDependencies s =
     checkCircularDependencies_depth (Suc (length (relationships s))) s"

subsection \<open>Orphan-table pass\<close>

definition checkOrphanTables :: "Schema \<Rightarrow> ValidationResult" where
  "checkOrphanTables s =
     (if length (tables s) \<le> 1 then \<lparr>valid = True, errors = [], warnings = []\<rparr>
      else
        (let connectedTables =
               fold (\<lambda>rel acc. insert (targetTableId rel) (insert (sourceTableId rel) acc))
                    (Map_values (relationships s)) {};
             warns =
               fold (\<lambda>table ws.
                       if tab_id table \<notin> connectedTables then ws @
                         [\<lparr>code = ''ORPHAN_TABLE'',
                           message = ''Table '' @ quoted (tab_name table) @
                                     '' has no relationships with other tables'',
                           field = Some (tab_id table),
                           suggestion = Some
                             ''Consider adding relationships or removing the table if not needed''\<rparr>]
                       else ws)
                    (Map_values (tables s)) []
         in \<lparr>valid = True, errors = [], warnings = warns\<rparr>))"

subsection \<open>Entry points\<close>

definition validateSchema :: "Schema \<Rightarrow> ValidationResult option" where
  "validateSchema s =
     (let tableValidation = validateTables s;
          errs1 = errors tableValidation;
          warns1 = warnings tableValidation;
          relationshipValidation = validateRelationships s;
          errs2 = errs1 @ errors relationshipValidation;
          warns2 = warns1 @ warnings relationshipValidation
      in case checkCircularDependencies s of
           None \<Rightarrow> None
         | Some circularValidation \<Rightarrow>
            (let warns3 = warns2 @ warnings circularValidation;
                 orphanValidation = checkOrphanTables s;
                 warns4 = warns3 @ warnings orphanValidation
             in Some \<lparr>valid = (errs2 = []), errors = errs2, warnings = warns4\<rparr>))"

text \<open>The column loop of \<^verbatim>\<open>validateTable\<close>.\<close>

fun validateTable_columns ::
  "Table \<Rightarrow> Column list \<Rightarrow> string set \<Rightarrow> ValidationError list \<Rightarrow> ValidationError list" where
  "validateTable_columns t [] columnNames errs = errs"
| "validateTable_columns t (column # cs) columnNames errs =
     (let errs1 = errs @ (if toLowerCase (col_name column) \<in> columnNames then
            [\<lparr>code = ''DUPLICATE_COLUMN_NAME'',
              message = ''Duplicate column name '' @ quoted (col_name column) @
                        '' in table '' @ quoted (tab_name t),
              field = Some (col_id column),
              suggestion = Some ''Rename one of the columns with duplicate names''\<rparr>]
            else []);
          columnNames1 = insert (toLowerCase (col_name column)) columnNames;
          errs2 = errs1 @ (if col_name column = [] \<or> trim (col_name column) = [] then
            [\<lparr>code = ''COLUMN_EMPTY_NAME'',
              message = ''Column in table '' @ quoted (tab_name t) @ '' has empty name'',
              field = Some (col_id column),
              suggestion = Some ''Provide a name for the column''\<rparr>]
            else []);
          errs3 = errs2 @ (if col_type column = [] \<or> trim (col_type column) = [] then
            [\<lparr>code = ''COLUMN_EMPTY_TYPE'',
              message = ''Column '' @ quoted (col_name column) @ '' in table '' @
                        quoted (tab_name t) @ '' has empty type'',
              field = Some (col_id column),
              suggestion = Some ''Specify a data type for the column''\<rparr>]
            else [])
      in validateTable_columns t cs columnNames1 errs3)"

definition validateTable :: "Schema \<Rightarrow> string \<Rightarrow> ValidationResult" where
  "validateTable s tableId =
     (case getTable s tableId of
        None \<Rightarrow>
          \<lparr>valid = False,
           errors = [\<lparr>code = ''TABLE_NOT_FOUND'',
                      message = ''Table with ID '' @ quoted tableId @ '' not found'',
                      field = Some tableId,
                      suggestion = Some ''Check if the table exists''\<rparr>],
           warnings = []\<rparr>
      | Some t \<Rightarrow>
          (let errs2 = (if tab_name t = [] \<or> trim (tab_name t) = [] then
                 [\<lparr>code = ''TABLE_EMPTY_NAME'',
                   message = ''Table has empty name'',
                   field = Some (tab_id t),
                   suggestion = Some ''Provide a name for the table''\<rparr>]
                 else []);
               errs3 = errs2 @ (if length (columns t) = 0 then
                 [\<lparr>code = ''TABLE_NO_COLUMNS'',
                   message = ''Table '' @ quoted (tab_name t) @ '' has no columns'',
                   field = Some (tab_id t),
                   suggestion = Some ''Add at least one column to the table''\<rparr>]
                 else []);
               errs4 = errs3 @ (if length (getPrimaryKeys t) = 0 then
                 [\<lparr>code = ''TABLE_NO_PRIMARY_KEY'',
                   message = ''Table '' @ quoted (tab_name t) @ '' has no primary key'',
                   field = Some (tab_id t),
                   suggestion = Some ''Add a primary key to the table''\<rparr>]
                 else []);
               errs5 = validateTable_columns t (columns t) {} errs4
           in \<lparr>valid = (errs5 = []), errors = errs5, warnings = []\<rparr>))"

definition validateRelationship :: "Schema \<Rightarrow> string \<Rightarrow> ValidationResult" where
  "validateRelationship s relationshipId =
     (case getRelationship s relationshipId of
        None \<Rightarrow>
          \<lparr>valid = False,
           errors = [\<lparr>code = ''RELATIONSHIP_NOT_FOUND'',
                      message = ''Relationship with ID '' @ quoted relationshipId @ '' not found'',
                      field = Some relationshipId,
                      suggestion = Some ''Check if the relationship exists''\<rparr>],
           warnings = []\<rparr>
      | Some relationship \<Rightarrow> Relationship_validate relationship s)"

section \<open>Constructors\<close>

text \<open>\<^verbatim>\<open>new Column(id, name, type)\<close> and \<^verbatim>\<open>new Relationship(...)\<close> with the field defaults of
  the classes.\<close>

definition new_Column :: "string \<Rightarrow> string \<Rightarrow> string \<Rightarrow> Column" where
  "new_Column i n t =
     \<lparr>col_id = i, col_name = n, col_type = t, nullable = True, primaryKey = False,
      foreignKey = False, unique = False, autoIncrement = False, defaultValue = None,
      col_comment = None\<rparr>"

definition new_Relationship ::
  "string \<Rightarrow> RelationType \<Rightarrow> string \<Rightarrow> string \<Rightarrow> string \<Rightarrow> string \<Rightarrow> Relationship" where
  "new_Relationship i ty st tt sc tc =
     \<lparr>rel_id = i, rel_name = None, rel_type = ty, sourceTableId = st, targetTableId = tt,
      sourceColumnId = sc, targetColumnId = tc, onDelete = None, onUpdate = None,
      rel_comment = None\<rparr>"


section \<open>Notions used to state the properties\<close>

definition targetIds :: "Schema \<Rightarrow> string set" where
  "targetIds s = targetTableId ` set (Map_values (relationships s))"

definition edge :: "Schema \<Rightarrow> string \<Rightarrow> string \<Rightarrow> bool" where
  "edge s a b = (\<exists>rel \<in> set (Map_values (relationships s)). sourceTableId rel = a \<and> targetTableId rel = b)"

definition tableNameOrId :: "Schema \<Rightarrow> string \<Rightarrow> string" where
  "tableNameOrId s i = (case getTable s i of Some table \<Rightarrow> tab_name table | None \<Rightarrow> i)"

definition cycleWarning :: "Schema \<Rightarrow> string list \<Rightarrow> ValidationWarning" where
  "cycleWarning s p =
     \<lparr>code = ''CIRCULAR_DEPENDENCY'',
      message = ''Circular dependency detected: '' @ join arrowSep (map (tableNameOrId s) p),
      field = Some (hd p),
      suggestion = Some ''Review the relationships to break the circular dependency''\<rparr>"

definition reportsCycle :: "Schema \<Rightarrow> ValidationWarning \<Rightarrow> bool" where
  "reportsCycle s w =
     (\<exists>p. p \<noteq> [] \<and> distinct p \<and> successively (edge s) p \<and> edge s (last p) (hd p) \<and>
          w = cycleWarning s p)"

definition dfsExtends :: "Schema \<Rightarrow> DfsState \<Rightarrow> DfsState \<Rightarrow> bool" where
  "dfsExtends s st st' =
     (\<exists>ws. dfs_warnings st' = dfs_warnings st @ ws \<and> (\<forall>w \<in> set ws. reportsCycle s w))"

definition duplicateTableNameError :: "Table \<Rightarrow> ValidationError" where
  "duplicateTableNameError t =
     \<lparr>code = ''DUPLICATE_TABLE_NAME'',
      message = ''Duplicate table name: '' @ quoted (tab_name t),
      field = Some (tab_id t),
      suggestion = Some ''Rename one of the tables with duplicate names''\<rparr>"

definition nameKey :: "Table \<Rightarrow> string" where
  "nameKey t = toLowerCase (tab_name t)"

definition laterDuplicates :: "Table list \<Rightarrow> Table list" where
  "laterDuplicates ts =
     map (\<lambda>i. ts ! i) (filter (\<lambda>i. nameKey (ts ! i) \<in> nameKey ` set (take i ts)) [0..<length ts])"

definition orphanWarning :: "Table \<Rightarrow> ValidationWarning" where
  "orphanWarning table =
     \<lparr>code = ''ORPHAN_TABLE'',
      message = ''Table '' @ quoted (tab_name table) @ '' has no relationships with other tables'',
      field = Some (tab_id table),
      suggestion = Some ''Consider adding relationships or removing the table if not needed''\<rparr>"

definition connectedIds :: "Schema \<Rightarrow> string set" where
  "connectedIds s =
     sourceTableId ` set (Map_values (relationships s)) \<union>
     targetTableId ` set (Map_values (relationships s))"

definition isDuplicateTableName :: "ValidationError \<Rightarrow> bool" where
  "isDuplicateTableName e = (code e = ''DUPLICATE_TABLE_NAME'')"

definition isOrphanTable :: "ValidationWarning \<Rightarrow> bool" where
  "isOrphanTable w = (code w = ''ORPHAN_TABLE'')"

definition laterDuplicatesFrom :: "string set \<Rightarrow> Table list \<Rightarrow> Table list" where
  "laterDuplicatesFrom names ts =
     map (\<lambda>i. ts ! i)
       (filter (\<lambda>i. nameKey (ts ! i) \<in> names \<union> nameKey ` set (take i ts)) [0..<length ts])"

section \<open>Example schemas\<close>

text \<open>A users table, a posts table and the foreign key posts.user_id -> users.id.\<close>


definition ex_users :: Table where
  "ex_users = addColumn ((new_Column ''c1'' ''id'' ''INT'')\<lparr>primaryKey := True, nullable := False\<rparr>)
                (new_Table ''t1'' ''users'' 0 0)"

definition ex_posts :: Table where
  "ex_posts = addColumn (new_Column ''c3'' ''user_id'' ''INT'')
                (addColumn ((new_Column ''c2'' ''id'' ''INT'')\<lparr>primaryKey := True, nullable := False\<rparr>)
                   (new_Table ''t2'' ''posts'' 100 100))"

definition ex_rel :: Relationship where
  "ex_rel = new_Relationship ''r1'' OneToMany ''t2'' ''t1'' ''c3'' ''c1''"

definition ex_schema :: Schema where
  "ex_schema = addRelationship ex_rel (addTable ex_posts (addTable ex_users new_Schema))"

definition ex_rel_bad :: Relationship where
  "ex_rel_bad = ex_rel\<lparr>sourceColumnId := ''missing''\<rparr>"

definition ex_rel_bad2 :: Relationship where
  "ex_rel_bad2 = ex_rel\<lparr>sourceColumnId := ''missing'', targetColumnId := ''gone''\<rparr>"

definition ex_rel_bad3 :: Relationship where
  "ex_rel_bad3 = ex_rel\<lparr>targetColumnId := ''gone''\<rparr>"

text \<open>Two tables that reference each other.\<close>

definition ex_table1 :: Table where
  "ex_table1 = addColumn (new_Column ''c2'' ''table2_id'' ''INT'')
                 (addColumn ((new_Column ''c1'' ''id'' ''INT'')\<lparr>primaryKey := True, nullable := False\<rparr>)
                    (new_Table ''t1'' ''table1'' 0 0))"

definition ex_table2 :: Table where
  "ex_table2 = addColumn (new_Column ''c4'' ''table1_id'' ''INT'')
                 (addColumn ((new_Column ''c3'' ''id'' ''INT'')\<lparr>primaryKey := True, nullable := False\<rparr>)
                    (new_Table ''t2'' ''table2'' 100 100))"

definition ex_cycle :: Schema where
  "ex_cycle =
     addRelationship (new_Relationship ''r2'' OneToMany ''t2'' ''t1'' ''c4'' ''c1'')
       (addRelationship (new_Relationship ''r1'' OneToMany ''t1'' ''t2'' ''c2'' ''c3'')
          (addTable ex_table2 (addTable ex_table1 new_Schema)))"

definition ex_dfs_state :: DfsState where
  "ex_dfs_state = \<lparr>visited = {''t1'', ''t2''}, recursionStack = {''t1'', ''t2''}, dfs_warnings = []\<rparr>"

text \<open>Two tables with the same name, and two whose names differ in case only.\<close>

definition ex_two_users :: Schema where
  "ex_two_users =
     addTable (new_Table ''b'' ''users'' 100 100) (addTable (new_Table ''a'' ''users'' 0 0) new_Schema)"

definition ex_mixed_case :: Schema where
  "ex_mixed_case =
     addTable (new_Table ''b'' ''users'' 100 100) (addTable (new_Table ''a'' ''Users'' 0 0) new_Schema)"

text \<open>Three tables of which only two are connected, and a schema of one table.\<close>

definition ex_orphan_table :: Table where
  "ex_orphan_table =
     addColumn ((new_Column ''c9'' ''id'' ''INT'')\<lparr>primaryKey := True, nullable := False\<rparr>)
       (new_Table ''t3'' ''orphan'' 200 200)"

definition ex_three :: Schema where
  "ex_three = addTable ex_orphan_table ex_schema"

definition ex_single :: Schema where
  "ex_single = addTable ex_users new_Schema"

text \<open>A table whose only column is a nullable, auto-incremented primary key of type
  VARCHAR(50).\<close>

definition ex_bad_column :: Schema where
  "ex_bad_column =
     addTable
       (addColumn ((new_Column ''c1'' ''id'' ''VARCHAR(50)'')\<lparr>primaryKey := True, autoIncrement := True\<rparr>)
          (new_Table ''t1'' ''users'' 0 0))
       new_Schema"

text \<open>The posts table and its foreign key, the users table being absent.\<close>

definition ex_dangling :: Schema where
  "ex_dangling = addRelationship ex_rel (addTable ex_posts new_Schema)"

text \<open>Users, posts and comments: posts reference users, comments reference posts.\<close>

definition ex_comments :: Table where
  "ex_comments =
     addColumn (new_Column ''c6'' ''posts_id'' ''INT'')
       (addColumn ((new_Column ''c5'' ''id'' ''INT'')\<lparr>primaryKey := True, nullable := False\<rparr>)
          (new_Table ''t4'' ''comments'' 200 0))"

definition ex_blog :: Schema where
  "ex_blog =
     addRelationship (new_Relationship ''r2'' OneToMany ''t4'' ''t2'' ''c6'' ''c2'')
       (addTable ex_comments ex_schema)"

text \<open>The invariant of a \<^verbatim>\<open>Map\<close>: every key occurs once.\<close>

definition keysDistinct :: "('k, 'v) JsMap \<Rightarrow> bool" where
  "keysDistinct m = distinct (Map_keys m)"

definition touches :: "string \<Rightarrow> Relationship \<Rightarrow> bool" where
  "touches i rel = (sourceTableId rel = i \<or> targetTableId rel = i)"

text \<open>
  The schemas of the data model: each map is a map, keyed by the id of the entity it
  holds. \<^verbatim>\<open>addTable\<close> and \<^verbatim>\<open>addRelationship\<close> insert under the entity's own id.
\<close>

definition wf_Schema :: "Schema \<Rightarrow> bool" where
  "wf_Schema s =
     (keysDistinct (tables s) \<and> keysDistinct (relationships s) \<and>
      list_all (\<lambda>e. fst e = tab_id (snd e)) (tables s) \<and>
      list_all (\<lambda>e. fst e = rel_id (snd e)) (relationships s))"




section \<open>Auxiliary lemmas\<close>

lemma forEachM_total:
  assumes "\<And>x a. x \<in> set xs \<Longrightarrow> I a \<Longrightarrow> \<exists>b. f x a = Some b \<and> I b" and "I st"
  shows "\<exists>st'. forEachM f xs st = Some st' \<and> I st'"
  using assms
proof (induction xs arbitrary: st)
  case Nil
  then show ?case by simp
next
  case (Cons x xs)
  from Cons.prems obtain b where b: "f x st = Some b" "I b" by (meson list.set_intros(1))
  have "\<exists>st'. forEachM f xs b = Some st' \<and> I st'"
    using Cons.IH [of b] Cons.prems(1) b(2) by (meson list.set_intros(2))
  then show ?case using b(1) by simp
qed

lemma forEachM_preserves:
  assumes "forEachM f xs st = Some st'" and "I st"
    and "\<And>x a b. x \<in> set xs \<Longrightarrow> I a \<Longrightarrow> f x a = Some b \<Longrightarrow> I b"
  shows "I st'"
  using assms
proof (induction xs arbitrary: st)
  case Nil
  then show ?case by simp
next
  case (Cons x xs)
  from Cons.prems(1) obtain b where b: "f x st = Some b" "forEachM f xs b = Some st'"
    by (auto split: option.splits)
  have "I b" using Cons.prems(3) [of x st b] Cons.prems(2) b(1) by simp
  then show ?case using Cons.IH [OF b(2)] Cons.prems(3) by (meson list.set_intros(2))
qed

lemma hasCycle_total:
  "tableId \<in> recursionStack st \<or> tableId \<in> visited st \<or>
     card (targetIds s - visited st - {tableId}) < depth
   \<Longrightarrow> \<exists>r. hasCycle depth s tableId path st = Some r \<and> visited st \<subseteq> visited (snd r)"
proof (induction depth arbitrary: tableId path st)
  case 0
  then show ?case by (auto simp add: hasCycle.simps Let_def)
next
  case (Suc d)
  show ?case
  proof (cases "tableId \<in> recursionStack st \<or> tableId \<in> visited st")
    case True
    then show ?thesis by (auto simp add: hasCycle.simps Let_def)
  next
    case False
    with Suc.prems have c: "card (targetIds s - visited st - {tableId}) < Suc d" by blast
    define st2 where "st2 = st\<lparr>visited := insert tableId (visited st),
                                recursionStack := insert tableId (recursionStack st)\<rparr>"
    define f where "f = (\<lambda>(rel::Relationship) (s'::DfsState). if sourceTableId rel = tableId
                       then map_option snd (hasCycle d s (targetTableId rel) (path @ [tableId]) s')
                       else Some s')"
    have fin: "finite (targetIds s)" by (simp add: targetIds_def)
    have step: "\<exists>b. f x a = Some b \<and> visited st2 \<subseteq> visited b"
      if x: "x \<in> set (Map_values (relationships s))" and a: "visited st2 \<subseteq> visited a" for x a
    proof (cases "sourceTableId x = tableId")
      case False
      then show ?thesis using a by (simp add: f_def)
    next
      case True
      let ?t = "targetTableId x"
      have "?t \<in> recursionStack a \<or> ?t \<in> visited a \<or> card (targetIds s - visited a - {?t}) < d"
      proof (cases "?t \<in> visited a")
        case True then show ?thesis by simp
      next
        case nv: False
        have tin: "?t \<in> targetIds s" using x by (simp add: targetIds_def)
        have sub: "targetIds s - visited a - {?t} \<subset> targetIds s - visited st - {tableId}"
          using nv tin a by (auto simp add: st2_def)
        have "card (targetIds s - visited a - {?t}) < card (targetIds s - visited st - {tableId})"
          by (rule psubset_card_mono) (use fin sub in auto)
        then show ?thesis using c by simp
      qed
      from Suc.IH [OF this, of "path @ [tableId]"]
      obtain r where r: "hasCycle d s ?t (path @ [tableId]) a = Some r" "visited a \<subseteq> visited (snd r)"
        by blast
      then show ?thesis using True a by (auto simp add: f_def)
    qed
    have "\<exists>st3. forEachM f (Map_values (relationships s)) st2 = Some st3 \<and> visited st2 \<subseteq> visited st3"
      by (rule forEachM_total [where I = "\<lambda>a. visited st2 \<subseteq> visited a"]) (use step in auto)
    then obtain st3 where st3: "forEachM f (Map_values (relationships s)) st2 = Some st3"
      "visited st2 \<subseteq> visited st3" by blast
    have "hasCycle (Suc d) s tableId path st =
            Some (False, st3\<lparr>recursionStack := recursionStack st3 - {tableId}\<rparr>)"
      using False st3(1) by (simp add: hasCycle.simps [of "Suc d"] Let_def f_def st2_def)
    then show ?thesis using st3(2) by (auto simp add: st2_def)
  qed
qed

lemma indexOf_mem:
  "x \<in> set xs \<Longrightarrow> indexOf xs x = int (length (takeWhile (\<lambda>y. y \<noteq> x) xs))"
  by (induction xs) (auto simp add: Let_def)

lemma indexOf_not_mem: "x \<notin> set xs \<Longrightarrow> indexOf xs x = - 1"
  by (induction xs) (auto simp add: Let_def)

lemma slice_from_indexOf:
  "x \<in> set xs \<Longrightarrow> slice_from xs (indexOf xs x) = dropWhile (\<lambda>y. y \<noteq> x) xs"
proof -
  assume x: "x \<in> set xs"
  have le: "length (takeWhile (\<lambda>y. y \<noteq> x) xs) \<le> length xs"
    by (rule length_takeWhile_le)
  have "drop (length (takeWhile (\<lambda>y. y \<noteq> x) xs)) xs = dropWhile (\<lambda>y. y \<noteq> x) xs"
    by (rule dropWhile_eq_drop [symmetric])
  then show ?thesis using x le by (simp add: slice_from_def indexOf_mem Let_def min_def)
qed

lemma dropWhile_cycle:
  assumes "x \<in> set path"
  shows "dropWhile (\<lambda>y. y \<noteq> x) path \<noteq> [] \<and> hd (dropWhile (\<lambda>y. y \<noteq> x) path) = x \<and>
         last (dropWhile (\<lambda>y. y \<noteq> x) path) = last path \<and>
         suffix (dropWhile (\<lambda>y. y \<noteq> x) path) path"
proof -
  let ?p = "dropWhile (\<lambda>y. y \<noteq> x) path"
  have ne: "?p \<noteq> []" using assms by (simp add: dropWhile_eq_Nil_conv)
  have hd: "hd ?p = x" using ne hd_dropWhile [of "\<lambda>y. y \<noteq> x" path] by auto
  have sp: "path = takeWhile (\<lambda>y. y \<noteq> x) path @ ?p" by simp
  have "last path = last ?p" using ne by (subst sp) (simp del: takeWhile_dropWhile_id)
  moreover have "suffix ?p path" by (rule suffix_dropWhile)
  ultimately show ?thesis using ne hd by simp
qed

lemma successively_suffix: "suffix p xs \<Longrightarrow> successively P xs \<Longrightarrow> successively P p"
  by (auto simp add: suffix_def successively_append_iff)

lemma hasCycle_revisit:
  assumes "tableId \<in> recursionStack st" and "tableId \<in> set path"
  shows "hasCycle depth s tableId path st =
           Some (True, st\<lparr>dfs_warnings := dfs_warnings st @
                   [cycleWarning s (dropWhile (\<lambda>y. y \<noteq> tableId) path)]\<rparr>)"
  using assms dropWhile_cycle [OF assms(2)]
  by (simp add: hasCycle.simps Let_def slice_from_indexOf cycleWarning_def tableNameOrId_def [abs_def])

lemma dfsExtends_refl: "dfsExtends s st st"
  by (simp add: dfsExtends_def)

lemma dfsExtends_trans: "dfsExtends s a b \<Longrightarrow> dfsExtends s b c \<Longrightarrow> dfsExtends s a c"
  by (fastforce simp add: dfsExtends_def)

lemma hasCycle_revisit_sound:
  assumes "hasCycle depth s tableId path st = Some r" and "tableId \<in> recursionStack st"
    and "recursionStack st \<subseteq> set path" and "successively (edge s) path"
    and "path \<noteq> [] \<longrightarrow> edge s (last path) tableId" and "distinct path"
  shows "recursionStack (snd r) = recursionStack st \<and> dfsExtends s st (snd r) \<and>
         visited st \<subseteq> visited (snd r)"
proof -
  have inp: "tableId \<in> set path" using assms(2,3) by blast
  let ?p = "dropWhile (\<lambda>y. y \<noteq> tableId) path"
  have pne: "path \<noteq> []" using inp by auto
  have p: "?p \<noteq> []" "hd ?p = tableId" "last ?p = last path" "suffix ?p path"
    using dropWhile_cycle [OF inp] by simp_all
  have "successively (edge s) ?p" by (rule successively_suffix [OF p(4) assms(4)])
  moreover have "edge s (last ?p) (hd ?p)" using p(2,3) assms(5) pne by simp
  moreover have "distinct ?p" using assms(6) by simp
  ultimately have "reportsCycle s (cycleWarning s ?p)"
    unfolding reportsCycle_def using p(1) by blast
  then show ?thesis
    using assms(1) hasCycle_revisit [OF assms(2) inp, of depth s]
    by (auto simp add: dfsExtends_def)
qed

lemma hasCycle_sound:
  "hasCycle depth s tableId path st = Some r \<Longrightarrow>
   recursionStack st \<subseteq> set path \<Longrightarrow> successively (edge s) path \<Longrightarrow>
   (path \<noteq> [] \<longrightarrow> edge s (last path) tableId) \<Longrightarrow>
   distinct path \<Longrightarrow> set path \<subseteq> visited st \<Longrightarrow>
   recursionStack (snd r) = recursionStack st \<and> dfsExtends s st (snd r) \<and>
   visited st \<subseteq> visited (snd r)"
proof (induction depth arbitrary: tableId path st r)
  case 0
  show ?case
  proof (cases "tableId \<in> recursionStack st")
    case True
    then show ?thesis using hasCycle_revisit_sound "0.prems" by blast
  next
    case False
    then show ?thesis using "0.prems"(1)
      by (auto simp add: hasCycle.simps [of 0] Let_def dfsExtends_refl split: if_splits)
  qed
next
  case (Suc d)
  show ?case
  proof (cases "tableId \<in> recursionStack st")
    case True
    then show ?thesis using hasCycle_revisit_sound Suc.prems by blast
  next
    case False
    show ?thesis
    proof (cases "tableId \<in> visited st")
      case True
      then show ?thesis using False Suc.prems(1)
        by (auto simp add: hasCycle.simps [of "Suc d"] dfsExtends_refl)
    next
      case nv: False
      define st2 where "st2 = st\<lparr>visited := insert tableId (visited st),
                                  recursionStack := insert tableId (recursionStack st)\<rparr>"
      define f where "f = (\<lambda>(rel::Relationship) (s'::DfsState). if sourceTableId rel = tableId
                         then map_option snd (hasCycle d s (targetTableId rel) (path @ [tableId]) s')
                         else Some s')"
      define I where "I = (\<lambda>a. recursionStack a = recursionStack st2 \<and> dfsExtends s st a \<and>
                            visited st2 \<subseteq> visited a)"
      from Suc.prems(1) False nv obtain st3 where
        st3: "forEachM f (Map_values (relationships s)) st2 = Some st3"
        and r: "r = (False, st3\<lparr>recursionStack := recursionStack st3 - {tableId}\<rparr>)"
        by (auto simp add: hasCycle.simps [of "Suc d"] Let_def f_def st2_def split: option.splits)
      have chain: "successively (edge s) (path @ [tableId])"
        using Suc.prems(3,4) by (auto simp add: successively_append_iff)
      have step: "I b" if x: "x \<in> set (Map_values (relationships s))" and a: "I a"
        and fx: "f x a = Some b" for x a b
      proof (cases "sourceTableId x = tableId")
        case False
        then show ?thesis using a fx by (simp add: f_def)
      next
        case True
        from fx True obtain r' where r': "hasCycle d s (targetTableId x) (path @ [tableId]) a = Some r'"
          "b = snd r'" by (auto simp add: f_def)
        have e: "edge s tableId (targetTableId x)" using x True by (auto simp add: edge_def)
        have stk: "recursionStack a \<subseteq> set (path @ [tableId])"
          using a Suc.prems(2) by (auto simp add: I_def st2_def)
        have dist: "distinct (path @ [tableId])" using Suc.prems(5,6) nv by auto
        have vis: "set (path @ [tableId]) \<subseteq> visited a"
          using a Suc.prems(6) by (auto simp add: I_def st2_def)
        from Suc.IH [OF r'(1) stk chain _ dist vis] e
        have "recursionStack (snd r') = recursionStack a \<and> dfsExtends s a (snd r') \<and>
              visited a \<subseteq> visited (snd r')" by simp
        then show ?thesis using a r'(2) dfsExtends_trans [of s st a b] by (auto simp add: I_def)
      qed
      have i2: "I st2" by (auto simp add: I_def st2_def dfsExtends_def)
      have "I st3" using forEachM_preserves [OF st3, of I] i2 step by blast
      then show ?thesis using r False
        by (auto simp add: I_def st2_def dfsExtends_def)
    qed
  qed
qed

lemma checkCircularDependencies_depth_sound:
  assumes "checkCircularDependencies_depth depth s = Some r"
  shows "valid r \<and> errors r = [] \<and> (\<forall>w \<in> set (warnings r). reportsCycle s w)"
proof -
  define st0 :: DfsState where "st0 = \<lparr>visited = {}, recursionStack = {}, dfs_warnings = []\<rparr>"
  define f where "f = (\<lambda>tableId (st::DfsState).
               if tableId \<notin> visited st then map_option snd (hasCycle depth s tableId [] st)
               else Some st)"
  define I where "I = (\<lambda>a. recursionStack a = {} \<and> dfsExtends s st0 a)"
  from assms obtain st where st: "forEachM f (Map_keys (tables s)) st0 = Some st"
    and r: "r = \<lparr>valid = True, errors = [], warnings = dfs_warnings st\<rparr>"
    by (auto simp add: checkCircularDependencies_depth_def f_def st0_def split: option.splits)
  have step: "I b" if a: "I a" and fx: "f x a = Some b" for x a b
  proof (cases "x \<in> visited a")
    case True
    then show ?thesis using a fx by (simp add: f_def)
  next
    case False
    with fx obtain r' where r': "hasCycle depth s x [] a = Some r'" "b = snd r'"
      by (auto simp add: f_def)
    have "recursionStack (snd r') = recursionStack a \<and> dfsExtends s a (snd r') \<and>
          visited a \<subseteq> visited (snd r')"
      by (rule hasCycle_sound [OF r'(1)]) (use a in \<open>auto simp add: I_def\<close>)
    then show ?thesis using a r'(2) dfsExtends_trans [of s st0 a b] by (auto simp add: I_def)
  qed
  have i0: "I st0" by (simp add: I_def st0_def dfsExtends_def)
  have "I st" using forEachM_preserves [OF st, of I] i0 step by blast
  then show ?thesis using r by (auto simp add: I_def dfsExtends_def st0_def)
qed

lemma checkCircularDependencies_depth_total:
  assumes "length (relationships s) < depth"
  shows "\<exists>r. checkCircularDependencies_depth depth s = Some r"
proof -
  define st0 :: DfsState where "st0 = \<lparr>visited = {}, recursionStack = {}, dfs_warnings = []\<rparr>"
  define f where "f = (\<lambda>tableId (st::DfsState).
               if tableId \<notin> visited st then map_option snd (hasCycle depth s tableId [] st)
               else Some st)"
  have cardle: "card (targetIds s) \<le> length (relationships s)"
    unfolding targetIds_def Map_values_def
    by (metis card_image_le card_length le_trans List.finite_set length_map)
  have step: "\<exists>b. f x a = Some b \<and> True" for x a
  proof (cases "x \<in> visited a")
    case True
    then show ?thesis by (simp add: f_def)
  next
    case False
    have "card (targetIds s - visited a - {x}) \<le> card (targetIds s)"
      by (rule card_mono) (auto simp add: targetIds_def)
    then have "card (targetIds s - visited a - {x}) < depth" using cardle assms by simp
    then obtain r where "hasCycle depth s x [] a = Some r"
      using hasCycle_total [of x a s depth "[]"] by blast
    then show ?thesis using False by (simp add: f_def)
  qed
  have "\<exists>st'. forEachM f (Map_keys (tables s)) st0 = Some st' \<and> True"
    by (rule forEachM_total [where I = "\<lambda>_. True"]) (use step in auto)
  then show ?thesis
    by (auto simp add: checkCircularDependencies_depth_def f_def st0_def)
qed

lemma checkCircularDependencies_total: "\<exists>r. checkCircularDependencies s = Some r"
  unfolding checkCircularDependencies_def
  by (rule checkCircularDependencies_depth_total) simp

lemma Relationship_validate_valid:
  "valid (Relationship_validate r s) = (errors (Relationship_validate r s) = [])"
  by (auto simp add: Relationship_validate_def Let_def split: option.splits)

lemma validateTable_valid:
  "valid (validateTable s tableId) = (errors (validateTable s tableId) = [])"
  by (simp add: validateTable_def Let_def split: option.splits)

lemma validateRelationship_valid:
  "valid (validateRelationship s relationshipId) = (errors (validateRelationship s relationshipId) = [])"
  by (simp add: validateRelationship_def Relationship_validate_valid split: option.splits)

lemma filter_if_single:
  "filter P (if c then [e] else []) = (if c \<and> P e then [e] else [])"
  by simp

lemma isDuplicateTableName_record:
  "isDuplicateTableName \<lparr>code = c, message = m, field = f, suggestion = g\<rparr> =
     (c = ''DUPLICATE_TABLE_NAME'')"
  by (simp add: isDuplicateTableName_def)

lemma validateTables_columns_no_dup:
  "filter isDuplicateTableName (validateTables_columns t cs names errs) =
   filter isDuplicateTableName errs"
proof (induction cs arbitrary: names errs)
  case Nil
  then show ?case by simp
next
  case (Cons c cs)
  show ?case
    by (simp add: Let_def Cons.IH filter_if_single isDuplicateTableName_record
        split del: if_split)
qed

lemma laterDuplicatesFrom_Nil: "laterDuplicatesFrom names [] = []"
  by (simp add: laterDuplicatesFrom_def)

lemma laterDuplicatesFrom_Cons:
  "laterDuplicatesFrom names (t # ts) =
     (if nameKey t \<in> names then [t] else []) @ laterDuplicatesFrom (insert (nameKey t) names) ts"
proof -
  have upt: "[0..<length (t # ts)] = 0 # map Suc [0..<length ts]"
    by (simp add: upt_conv_Cons map_Suc_upt del: upt_Suc)
  show ?thesis
    unfolding laterDuplicatesFrom_def upt
    by (simp add: filter_map comp_def disj_ac)
qed

lemma validateTables_loop_dups:
  "filter isDuplicateTableName (validateTables_loop ts names errs) =
   filter isDuplicateTableName errs @ map duplicateTableNameError (laterDuplicatesFrom names ts)"
proof (induction ts arbitrary: names errs)
  case Nil
  then show ?case by (simp add: laterDuplicatesFrom_Nil)
next
  case (Cons t ts)
  show ?case
    by (simp add: Let_def Cons.IH validateTables_columns_no_dup laterDuplicatesFrom_Cons nameKey_def
        filter_if_single isDuplicateTableName_record duplicateTableNameError_def
        split del: if_split)
       simp
qed

lemma validateTables_dups:
  "filter isDuplicateTableName (errors (validateTables s)) =
   map duplicateTableNameError (laterDuplicates (Map_values (tables s)))"
  by (simp add: validateTables_def Let_def validateTables_loop_dups laterDuplicatesFrom_def
      laterDuplicates_def)


section \<open>Type compatibility is symmetric\<close>

text \<open>
  C8. The type-compatibility check is symmetric, and two types are compatible exactly when
  their normalized forms (the text before the first opening parenthesis, trimmed,
  upper-cased) are identical or both belong to one of the fixed groups (numeric, string,
  date/time).
\<close>

theorem areTypesCompatible_symmetric:
  "areTypesCompatible a b = areTypesCompatible b a \<and>
   normalize_type a = toUpperCase (trim (splitHead (CHR ''('') a)) \<and>
   areTypesCompatible a b =
     (normalize_type a = normalize_type b \<or>
      (normalize_type a \<in> set numericTypes \<and> normalize_type b \<in> set numericTypes) \<or>
      (normalize_type a \<in> set stringTypes \<and> normalize_type b \<in> set stringTypes) \<or>
      (normalize_type a \<in> set dateTypes \<and> normalize_type b \<in> set dateTypes))"
  by (auto simp add: areTypesCompatible_def Let_def normalize_type_def)


section \<open>Validity of a result\<close>

text \<open>
  C1. Every result of validateSchema, validateTable and validateRelationship (and of the
  relationship validator itself, early returns included) has valid = true exactly when
  its error list is empty; warnings play no part. validateSchema always returns.
\<close>

theorem validation_valid_iff_no_errors:
  "(\<exists>r. validateSchema s = Some r \<and> valid r = (errors r = [])) \<and>
   valid (validateTable s tableId) = (errors (validateTable s tableId) = []) \<and>
   valid (validateRelationship s relationshipId) =
     (errors (validateRelationship s relationshipId) = []) \<and>
   valid (Relationship_validate rel s) = (errors (Relationship_validate rel s) = [])"
proof -
  obtain c where "checkCircularDependencies s = Some c"
    using checkCircularDependencies_total by blast
  then have "\<exists>r. validateSchema s = Some r \<and> valid r = (errors r = [])"
    by (simp add: validateSchema_def Let_def)
  then show ?thesis
    using validateTable_valid validateRelationship_valid Relationship_validate_valid by blast
qed


section \<open>Short-circuit on a missing column\<close>

text \<open>
  C2. When both tables of a relationship resolve, a source column that does not resolve
  while the target column does makes Relationship.validate return at once with exactly
  one error, SOURCE_COLUMN_NOT_FOUND on field sourceColumnId, and no warnings: none of the
  later checks (TYPE_MISMATCH, TARGET_NOT_PRIMARY_KEY, SOURCE_NO_INDEX, NAMING_CONVENTION)
  runs. The two columns are checked independently: both errors appear together when both
  are missing, and the target error alone when only the target is missing.
\<close>

theorem Relationship_validate_missing_column:
  assumes "getTable s (sourceTableId r) = Some st" and "getTable s (targetTableId r) = Some tt"
  shows "(getColumn st (sourceColumnId r) = None \<and> getColumn tt (targetColumnId r) \<noteq> None \<longrightarrow>
            Relationship_validate r s =
              \<lparr>valid = False,
               errors = [\<lparr>code = ''SOURCE_COLUMN_NOT_FOUND'',
                          message = ''Source column with ID '' @ quoted (sourceColumnId r) @
                                    '' not found in table '' @ quoted (tab_name st),
                          field = Some ''sourceColumnId'',
                          suggestion = Some ''Select a valid column from the source table''\<rparr>],
               warnings = []\<rparr>) \<and>
         (getColumn st (sourceColumnId r) = None \<and> getColumn tt (targetColumnId r) = None \<longrightarrow>
            map code (errors (Relationship_validate r s)) =
              [''SOURCE_COLUMN_NOT_FOUND'', ''TARGET_COLUMN_NOT_FOUND''] \<and>
            warnings (Relationship_validate r s) = [] \<and> \<not> valid (Relationship_validate r s)) \<and>
         (getColumn st (sourceColumnId r) \<noteq> None \<and> getColumn tt (targetColumnId r) = None \<longrightarrow>
            map code (errors (Relationship_validate r s)) = [''TARGET_COLUMN_NOT_FOUND''] \<and>
            warnings (Relationship_validate r s) = [] \<and> \<not> valid (Relationship_validate r s))"
  using assms by (auto simp add: Relationship_validate_def Let_def)

theorem Relationship_validate_missing_column_witness:
  "getTable ex_schema (sourceTableId ex_rel_bad) = Some ex_posts \<and>
   getTable ex_schema (targetTableId ex_rel_bad) = Some ex_users \<and>
   getColumn ex_posts (sourceColumnId ex_rel_bad) = None \<and>
   getColumn ex_users (targetColumnId ex_rel_bad) \<noteq> None \<and>
   getColumn ex_posts (sourceColumnId ex_rel_bad2) = None \<and>
   getColumn ex_users (targetColumnId ex_rel_bad2) = None \<and>
   Relationship_validate ex_rel_bad ex_schema =
     \<lparr>valid = False,
      errors = [\<lparr>code = ''SOURCE_COLUMN_NOT_FOUND'',
                 message = ''Source column with ID '' @ quoted ''missing'' @
                           '' not found in table '' @ quoted ''posts'',
                 field = Some ''sourceColumnId'',
                 suggestion = Some ''Select a valid column from the source table''\<rparr>],
      warnings = []\<rparr> \<and>
   map code (errors (Relationship_validate ex_rel_bad2 ex_schema)) =
     [''SOURCE_COLUMN_NOT_FOUND'', ''TARGET_COLUMN_NOT_FOUND''] \<and>
   getColumn ex_posts (sourceColumnId ex_rel_bad3) \<noteq> None \<and>
   getColumn ex_users (targetColumnId ex_rel_bad3) = None \<and>
   map code (errors (Relationship_validate ex_rel_bad3 ex_schema)) = [''TARGET_COLUMN_NOT_FOUND'']"
proof -
  have s3: "getTable ex_schema (sourceTableId ex_rel_bad3) = Some ex_posts" by code_simp
  have t3: "getTable ex_schema (targetTableId ex_rel_bad3) = Some ex_users" by code_simp
  have c5: "getColumn ex_posts (sourceColumnId ex_rel_bad3) \<noteq> None" by code_simp
  have c6: "getColumn ex_users (targetColumnId ex_rel_bad3) = None" by code_simp
  have s1: "getTable ex_schema (sourceTableId ex_rel_bad) = Some ex_posts" by code_simp
  have t1: "getTable ex_schema (targetTableId ex_rel_bad) = Some ex_users" by code_simp
  have s2: "getTable ex_schema (sourceTableId ex_rel_bad2) = Some ex_posts" by code_simp
  have t2: "getTable ex_schema (targetTableId ex_rel_bad2) = Some ex_users" by code_simp
  have c1: "getColumn ex_posts (sourceColumnId ex_rel_bad) = None" by code_simp
  have c2: "getColumn ex_users (targetColumnId ex_rel_bad) \<noteq> None" by code_simp
  have c3: "getColumn ex_posts (sourceColumnId ex_rel_bad2) = None" by code_simp
  have c4: "getColumn ex_users (targetColumnId ex_rel_bad2) = None" by code_simp
  have n1: "sourceColumnId ex_rel_bad = ''missing''" by code_simp
  have n2: "tab_name ex_posts = ''posts''" by code_simp
  show ?thesis
    using Relationship_validate_missing_column [OF s1 t1]
      Relationship_validate_missing_column [OF s2 t2]
      Relationship_validate_missing_column [OF s3 t3]
      s1 t1 c1 c2 c3 c4 c5 c6 n1 n2
    by simp
qed


section \<open>The message of a cycle warning\<close>

text \<open>
  C3 (as the code has it). When the circular-dependency pass revisits a table that is on
  the active recursion stack, it emits a CIRCULAR_DEPENDENCY warning whose message lists
  the tables of the cycle once each, from the revisited table to the table whose
  relationship leads back to it: the revisited table is not repeated at the end. Each id
  is resolved to its table's name, with the raw id as fallback. The pass always returns,
  and every warning it returns is such a report of a real cycle of relationships.
\<close>

theorem cycle_warning_path:
  "(tableId \<in> recursionStack st \<and> tableId \<in> set path \<longrightarrow>
      hasCycle depth s tableId path st =
        Some (True, st\<lparr>dfs_warnings := dfs_warnings st @
                [cycleWarning s (dropWhile (\<lambda>y. y \<noteq> tableId) path)]\<rparr>) \<and>
      hd (dropWhile (\<lambda>y. y \<noteq> tableId) path) = tableId \<and>
      last (dropWhile (\<lambda>y. y \<noteq> tableId) path) = last path) \<and>
   (\<exists>r. checkCircularDependencies s = Some r \<and> errors r = [] \<and>
        (\<forall>w \<in> set (warnings r). reportsCycle s w))"
proof -
  obtain r where r: "checkCircularDependencies s = Some r"
    using checkCircularDependencies_total by blast
  then have "errors r = [] \<and> (\<forall>w \<in> set (warnings r). reportsCycle s w)"
    using checkCircularDependencies_depth_sound [of "Suc (length (relationships s))" s r]
    by (simp add: checkCircularDependencies_def)
  then have glob: "\<exists>r. checkCircularDependencies s = Some r \<and> errors r = [] \<and>
        (\<forall>w \<in> set (warnings r). reportsCycle s w)" using r by blast
  have loc: "hasCycle depth s tableId path st =
        Some (True, st\<lparr>dfs_warnings := dfs_warnings st @
                [cycleWarning s (dropWhile (\<lambda>y. y \<noteq> tableId) path)]\<rparr>) \<and>
      hd (dropWhile (\<lambda>y. y \<noteq> tableId) path) = tableId \<and>
      last (dropWhile (\<lambda>y. y \<noteq> tableId) path) = last path"
    if h: "tableId \<in> recursionStack st \<and> tableId \<in> set path"
  proof -
    have i: "tableId \<in> recursionStack st" and j: "tableId \<in> set path" using h by simp_all
    show ?thesis using hasCycle_revisit [OF i j, of depth s] dropWhile_cycle [OF j] by blast
  qed
  show ?thesis using glob loc by blast
qed

theorem cycle_warning_path_witness:
  "''t1'' \<in> recursionStack ex_dfs_state \<and> ''t1'' \<in> set [''t1'', ''t2''] \<and>
   hasCycle 0 ex_cycle ''t1'' [''t1'', ''t2''] ex_dfs_state =
     Some (True, ex_dfs_state\<lparr>dfs_warnings := [cycleWarning ex_cycle [''t1'', ''t2'']]\<rparr>) \<and>
   checkCircularDependencies ex_cycle =
     Some \<lparr>valid = True, errors = [], warnings = [cycleWarning ex_cycle [''t1'', ''t2'']]\<rparr> \<and>
   reportsCycle ex_cycle (cycleWarning ex_cycle [''t1'', ''t2''])"
proof -
  have a: "''t1'' \<in> recursionStack ex_dfs_state" by (simp add: ex_dfs_state_def)
  have b: "''t1'' \<in> set [''t1'', ''t2'']" by simp
  have c: "checkCircularDependencies ex_cycle =
     Some \<lparr>valid = True, errors = [], warnings = [cycleWarning ex_cycle [''t1'', ''t2'']]\<rparr>"
    by code_simp
  have d: "dfs_warnings ex_dfs_state = []" by (simp add: ex_dfs_state_def)
  show ?thesis
    using cycle_warning_path [of "''t1''" ex_dfs_state "[''t1'', ''t2'']" 0 ex_cycle] a b c d
    by simp
qed

text \<open>
  C3 as stated fails: for the two tables that reference each other the message is
  "table1 -> table2", not "table1 -> table2 -> table1".
\<close>

theorem cycle_warning_path_counterexample:
  "checkCircularDependencies ex_cycle =
     Some \<lparr>valid = True, errors = [],
           warnings =
             [\<lparr>code = ''CIRCULAR_DEPENDENCY'',
               message = ''Circular dependency detected: table1'' @ arrowSep @ ''table2'',
               field = Some ''t1'',
               suggestion = Some ''Review the relationships to break the circular dependency''\<rparr>]\<rparr> \<and>
   ''Circular dependency detected: table1'' @ arrowSep @ ''table2'' \<noteq>
   ''Circular dependency detected: table1'' @ arrowSep @ ''table2'' @ arrowSep @ ''table1''"
  by code_simp


section \<open>Results of the relationship pass and of the whole-schema entry point\<close>

lemma fold_validate_concat:
  "fold (\<lambda>relationship (es, ws).
           let result = V relationship in (es @ errors result, ws @ warnings result))
        rels (es0, ws0) =
   (es0 @ concat (map (\<lambda>r. errors (V r)) rels), ws0 @ concat (map (\<lambda>r. warnings (V r)) rels))"
  by (induction rels arbitrary: es0 ws0) (simp_all add: Let_def)

lemma validateRelationships_errors:
  "errors (validateRelationships s) =
     concat (map (\<lambda>r. errors (Relationship_validate r s)) (Map_values (relationships s)))"
  by (simp add: validateRelationships_def fold_validate_concat)

lemma validateRelationships_warnings:
  "warnings (validateRelationships s) =
     concat (map (\<lambda>r. warnings (Relationship_validate r s)) (Map_values (relationships s)))"
  by (simp add: validateRelationships_def fold_validate_concat)

lemma validateSchema_result:
  "\<exists>r c. validateSchema s = Some r \<and> checkCircularDependencies s = Some c \<and>
         errors r = errors (validateTables s) @ errors (validateRelationships s) \<and>
         warnings r = warnings (validateTables s) @ warnings (validateRelationships s) @
                      warnings c @ warnings (checkOrphanTables s)"
proof -
  obtain c where "checkCircularDependencies s = Some c"
    using checkCircularDependencies_total by blast
  then show ?thesis by (simp add: validateSchema_def Let_def)
qed

lemma Relationship_validate_no_dup:
  "filter isDuplicateTableName (errors (Relationship_validate r s)) = []"
  by (simp add: Relationship_validate_def Let_def filter_if_single isDuplicateTableName_record
      split: option.splits split del: if_split)

lemma validateRelationships_no_dup:
  "filter isDuplicateTableName (errors (validateRelationships s)) = []"
  by (simp add: validateRelationships_errors filter_concat Relationship_validate_no_dup comp_def)

lemma laterDuplicates_pair:
  "nameKey t1 = nameKey t2 \<Longrightarrow> laterDuplicates [t1, t2] = [t2]"
proof -
  assume "nameKey t1 = nameKey t2"
  moreover have "laterDuplicates [t1, t2] = laterDuplicatesFrom {} [t1, t2]"
    by (simp add: laterDuplicates_def laterDuplicatesFrom_def)
  ultimately show ?thesis
    by (simp add: laterDuplicatesFrom_Cons laterDuplicatesFrom_Nil)
qed


section \<open>Duplicate table names\<close>

text \<open>
  C5. In the whole-schema table pass duplicate table names are detected without regard to
  case against the names seen so far in iteration order: the DUPLICATE_TABLE_NAME errors
  are exactly one for each table whose lower-cased name is borne by an earlier table, in
  order, so the first bearer of a name is never flagged. Two tables both named "users"
  give exactly one such error, attributed to the second table.
\<close>

theorem duplicate_table_names:
  "filter isDuplicateTableName (errors (validateTables s)) =
     map duplicateTableNameError (laterDuplicates (Map_values (tables s))) \<and>
   (\<exists>r. validateSchema s = Some r \<and>
        filter isDuplicateTableName (errors r) =
          map duplicateTableNameError (laterDuplicates (Map_values (tables s)))) \<and>
   (Map_values (tables s) = [t1, t2] \<and> tab_name t1 = ''users'' \<and> tab_name t2 = ''users'' \<longrightarrow>
      (\<exists>r. validateSchema s = Some r \<and>
           filter isDuplicateTableName (errors r) = [duplicateTableNameError t2] \<and>
           field (duplicateTableNameError t2) = Some (tab_id t2)))"
proof -
  obtain r where r: "validateSchema s = Some r"
      "errors r = errors (validateTables s) @ errors (validateRelationships s)"
    using validateSchema_result [of s] by blast
  have gen: "\<exists>r. validateSchema s = Some r \<and>
        filter isDuplicateTableName (errors r) =
          map duplicateTableNameError (laterDuplicates (Map_values (tables s)))"
    using r by (simp add: validateTables_dups validateRelationships_no_dup)
  have two: "\<exists>r. validateSchema s = Some r \<and>
           filter isDuplicateTableName (errors r) = [duplicateTableNameError t2] \<and>
           field (duplicateTableNameError t2) = Some (tab_id t2)"
    if h: "Map_values (tables s) = [t1, t2] \<and> tab_name t1 = ''users'' \<and> tab_name t2 = ''users''"
  proof -
    have "nameKey t1 = nameKey t2" using h by (simp add: nameKey_def)
    then have "laterDuplicates (Map_values (tables s)) = [t2]"
      using h laterDuplicates_pair by simp
    then show ?thesis using gen by (simp add: duplicateTableNameError_def)
  qed
  show ?thesis using validateTables_dups gen two by blast
qed

theorem duplicate_table_names_witness:
  "Map_values (tables ex_two_users) = [new_Table ''a'' ''users'' 0 0, new_Table ''b'' ''users'' 100 100] \<and>
   tab_name (new_Table ''a'' ''users'' 0 0) = ''users'' \<and>
   tab_name (new_Table ''b'' ''users'' 100 100) = ''users'' \<and>
   (\<exists>r. validateSchema ex_two_users = Some r \<and>
        map field (filter isDuplicateTableName (errors r)) = [Some ''b'']) \<and>
   map field (filter isDuplicateTableName (errors (validateTables ex_mixed_case))) = [Some ''b'']"
proof -
  have a: "Map_values (tables ex_two_users) =
             [new_Table ''a'' ''users'' 0 0, new_Table ''b'' ''users'' 100 100]" by code_simp
  have b: "tab_name (new_Table ''a'' ''users'' 0 0) = ''users''" by code_simp
  have c: "tab_name (new_Table ''b'' ''users'' 100 100) = ''users''" by code_simp
  have d: "tab_id (new_Table ''b'' ''users'' 100 100) = ''b''" by code_simp
  have e: "map field (map duplicateTableNameError (laterDuplicates (Map_values (tables ex_mixed_case))))
             = [Some ''b'']" by code_simp
  have "\<exists>r. validateSchema ex_two_users = Some r \<and>
           filter isDuplicateTableName (errors r) =
             [duplicateTableNameError (new_Table ''b'' ''users'' 100 100)] \<and>
           field (duplicateTableNameError (new_Table ''b'' ''users'' 100 100)) = Some ''b''"
    using duplicate_table_names
      [of ex_two_users "new_Table ''a'' ''users'' 0 0" "new_Table ''b'' ''users'' 100 100"] a b c d
    by simp
  then have f: "\<exists>r. validateSchema ex_two_users = Some r \<and>
        map field (filter isDuplicateTableName (errors r)) = [Some ''b'']" by auto
  have g: "map field (filter isDuplicateTableName (errors (validateTables ex_mixed_case))) = [Some ''b'']"
    using duplicate_table_names [of ex_mixed_case] e by simp
  show ?thesis using a b c f g by blast
qed


section \<open>Orphan tables\<close>

lemma fold_connected:
  "fold (\<lambda>rel acc. insert (targetTableId rel) (insert (sourceTableId rel) acc)) rels A =
     A \<union> sourceTableId ` set rels \<union> targetTableId ` set rels"
  by (induction rels arbitrary: A) auto

lemma fold_push_if:
  "fold (\<lambda>x ws. if P x then ws @ [g x] else ws) xs ws0 = ws0 @ map g (filter P xs)"
  by (induction xs arbitrary: ws0) simp_all

lemma checkOrphanTables_result:
  "checkOrphanTables s =
     \<lparr>valid = True, errors = [],
      warnings = (if length (tables s) \<le> 1 then []
                  else map orphanWarning
                         (filter (\<lambda>t. tab_id t \<notin> connectedIds s) (Map_values (tables s))))\<rparr>"
  by (simp add: checkOrphanTables_def Let_def fold_connected fold_push_if connectedIds_def
      orphanWarning_def [abs_def])

lemma isOrphanTable_record:
  "isOrphanTable \<lparr>code = c, message = m, field = f, suggestion = g\<rparr> = (c = ''ORPHAN_TABLE'')"
  by (simp add: isOrphanTable_def)

lemma Relationship_validate_no_orphan:
  "filter isOrphanTable (warnings (Relationship_validate r s)) = []"
  by (simp add: Relationship_validate_def Let_def filter_if_single isOrphanTable_record
      split: option.splits split del: if_split)

lemma validateRelationships_no_orphan:
  "filter isOrphanTable (warnings (validateRelationships s)) = []"
  by (simp add: validateRelationships_warnings filter_concat Relationship_validate_no_orphan comp_def)

lemma reportsCycle_not_orphan: "reportsCycle s w \<Longrightarrow> \<not> isOrphanTable w"
  by (auto simp add: reportsCycle_def cycleWarning_def isOrphanTable_def)

lemma checkCircularDependencies_no_orphan:
  assumes "checkCircularDependencies s = Some c"
  shows "filter isOrphanTable (warnings c) = []"
proof -
  have "\<forall>w \<in> set (warnings c). reportsCycle s w"
    using assms checkCircularDependencies_depth_sound [of "Suc (length (relationships s))" s c]
    by (simp add: checkCircularDependencies_def)
  then show ?thesis using reportsCycle_not_orphan by (auto simp add: filter_empty_conv)
qed

lemma filter_orphanWarning:
  "filter isOrphanTable (map orphanWarning ts) = map orphanWarning ts"
  by (induction ts) (simp_all add: isOrphanTable_def orphanWarning_def)

text \<open>
  C6. validateSchema runs the orphan-table pass only when the schema has at least two
  tables. Then every table whose id is neither the source nor the target table of any
  relationship yields exactly one ORPHAN_TABLE warning, in iteration order, and nothing
  else does; the pass produces no errors. With at most one table no ORPHAN_TABLE warning
  is emitted, whatever the relationships are.
\<close>

theorem orphan_tables:
  "\<exists>r. validateSchema s = Some r \<and> errors (checkOrphanTables s) = [] \<and>
       (length (tables s) \<le> 1 \<longrightarrow> filter isOrphanTable (warnings r) = []) \<and>
       (2 \<le> length (tables s) \<longrightarrow>
          filter isOrphanTable (warnings r) =
            map orphanWarning
              (filter (\<lambda>t. tab_id t \<notin> connectedIds s) (Map_values (tables s))))"
proof -
  obtain r c where r: "validateSchema s = Some r" "checkCircularDependencies s = Some c"
      "warnings r = warnings (validateTables s) @ warnings (validateRelationships s) @
                    warnings c @ warnings (checkOrphanTables s)"
    using validateSchema_result [of s] by blast
  have t: "warnings (validateTables s) = []" by (simp add: validateTables_def Let_def)
  have f: "filter isOrphanTable (warnings r) = filter isOrphanTable (warnings (checkOrphanTables s))"
    using r(3) t validateRelationships_no_orphan [of s]
      checkCircularDependencies_no_orphan [OF r(2)]
    by simp
  have e: "errors (checkOrphanTables s) = []" by (simp add: checkOrphanTables_result)
  have small: "filter isOrphanTable (warnings r) = []" if "length (tables s) \<le> 1"
    using that f by (simp add: checkOrphanTables_result)
  have big: "filter isOrphanTable (warnings r) =
            map orphanWarning
              (filter (\<lambda>t. tab_id t \<notin> connectedIds s) (Map_values (tables s)))"
    if "2 \<le> length (tables s)"
    using that f by (simp add: checkOrphanTables_result filter_orphanWarning)
  show ?thesis using r(1) e small big by blast
qed

theorem orphan_tables_witness:
  "2 \<le> length (tables ex_three) \<and>
   (\<exists>r. validateSchema ex_three = Some r \<and>
        filter isOrphanTable (warnings r) = [orphanWarning ex_orphan_table]) \<and>
   length (tables ex_single) \<le> 1 \<and>
   (\<exists>r. validateSchema ex_single = Some r \<and> filter isOrphanTable (warnings r) = [])"
proof -
  have a: "2 \<le> length (tables ex_three)" by code_simp
  have b: "map orphanWarning
              (filter (\<lambda>t. tab_id t \<notin> connectedIds ex_three) (Map_values (tables ex_three))) =
           [orphanWarning ex_orphan_table]" by code_simp
  have c: "length (tables ex_single) \<le> 1" by code_simp
  have d: "\<exists>r. validateSchema ex_three = Some r \<and>
        filter isOrphanTable (warnings r) = [orphanWarning ex_orphan_table]"
    using orphan_tables [of ex_three] a b by auto
  have e: "\<exists>r. validateSchema ex_single = Some r \<and> filter isOrphanTable (warnings r) = []"
    using orphan_tables [of ex_single] c by auto
  show ?thesis using a c d e by blast
qed


section \<open>Single-table validation\<close>

text \<open>
  C4 fails on the code: validateTable omits the PRIMARY_KEY_NULLABLE and
  AUTO_INCREMENT_NON_NUMERIC checks that the table pass of validateSchema makes on the
  same table.
\<close>

theorem validateTable_misses_column_checks:
  "validateTable ex_bad_column ''t1'' = \<lparr>valid = True, errors = [], warnings = []\<rparr> \<and>
   map code (errors (validateTables ex_bad_column)) =
     [''PRIMARY_KEY_NULLABLE'', ''AUTO_INCREMENT_NON_NUMERIC'']"
  by code_simp


section \<open>Map operations\<close>

lemma Map_delete_filter:
  "distinct (map fst m) \<Longrightarrow> Map_delete k m = filter (\<lambda>e. fst e \<noteq> k) m"
proof (induction m)
  case Nil
  then show ?case by simp
next
  case (Cons e m)
  obtain k' v' where e: "e = (k', v')" by (cases e)
  show ?case
  proof (cases "k' = k")
    case True
    then have "k \<notin> fst ` set m" using Cons.prems e by auto
    then have "filter (\<lambda>e. fst e \<noteq> k) m = m" by (auto simp add: filter_id_conv)
    then show ?thesis using True e by simp
  next
    case False
    then show ?thesis using Cons e by simp
  qed
qed

lemma Map_delete_absent: "Map_get m k = None \<Longrightarrow> Map_delete k m = m"
  by (induction m) (auto split: if_splits)

lemma Map_get_filter:
  "Map_get (filter (\<lambda>e. fst e \<noteq> k) m) j = (if j = k then None else Map_get m j)"
  by (induction m) auto

lemma fold_collect_keys:
  "fold (\<lambda>(relId, rel) acc. if P rel then acc @ [relId] else acc) rels acc0 =
     acc0 @ map fst (filter (\<lambda>e. P (snd e)) rels)"
  by (induction rels arbitrary: acc0) (auto simp add: case_prod_beta)

lemma fold_delete_relationships:
  "fold (\<lambda>relId sch. sch\<lparr>relationships := Map_delete relId (relationships sch)\<rparr>) ks s =
     s\<lparr>relationships := fold Map_delete ks (relationships s)\<rparr>"
  by (induction ks arbitrary: s) simp_all

lemma fold_Map_delete_filter:
  "distinct (map fst m) \<Longrightarrow> fold Map_delete ks m = filter (\<lambda>e. fst e \<notin> set ks) m"
proof (induction ks arbitrary: m)
  case Nil
  then show ?case by simp
next
  case (Cons k ks)
  have d: "distinct (map fst (filter (\<lambda>e. fst e \<noteq> k) m))"
    using Cons.prems by (simp add: distinct_map_filter)
  show ?case
    using Cons.IH [OF d] Cons.prems by (simp add: Map_delete_filter conj_commute)
qed

lemma filter_keys_of_matching:
  assumes "distinct (map fst m)"
  shows "filter (\<lambda>e. fst e \<notin> set (map fst (filter (\<lambda>e. P (snd e)) m))) m =
         filter (\<lambda>e. \<not> P (snd e)) m"
proof (rule filter_cong [OF refl])
  fix e assume e: "e \<in> set m"
  have "fst e \<in> set (map fst (filter (\<lambda>e. P (snd e)) m)) \<longleftrightarrow> P (snd e)"
  proof
    assume "fst e \<in> set (map fst (filter (\<lambda>e. P (snd e)) m))"
    then obtain e' where e': "e' \<in> set m" "P (snd e')" "fst e' = fst e" by auto
    then have "e' = e" using assms e by (metis eq_key_imp_eq_value prod.collapse)
    then show "P (snd e)" using e'(2) by simp
  next
    assume "P (snd e)"
    then show "fst e \<in> set (map fst (filter (\<lambda>e. P (snd e)) m))" using e by auto
  qed
  then show "(fst e \<notin> set (map fst (filter (\<lambda>e. P (snd e)) m))) = (\<not> P (snd e))" by simp
qed

lemma removeTable_fields:
  "schema_name (removeTable i s) = schema_name s \<and> metadata (removeTable i s) = metadata s \<and>
   tables (removeTable i s) = Map_delete i (tables s) \<and>
   relationships (removeTable i s) =
     fold Map_delete (map fst (filter (\<lambda>e. touches i (snd e)) (relationships s))) (relationships s)"
  by (simp add: removeTable_def Let_def fold_collect_keys fold_delete_relationships touches_def)

lemma removeTable_relationships:
  assumes "keysDistinct (relationships s)"
  shows "relationships (removeTable i s) = filter (\<lambda>e. \<not> touches i (snd e)) (relationships s)"
proof -
  let ?ks = "map fst (filter (\<lambda>e. touches i (snd e)) (relationships s))"
  have d: "distinct (map fst (relationships s))"
    using assms by (simp add: keysDistinct_def Map_keys_def)
  have "relationships (removeTable i s) = fold Map_delete ?ks (relationships s)"
    using removeTable_fields [of i s] by blast
  also have "\<dots> = filter (\<lambda>e. fst e \<notin> set ?ks) (relationships s)"
    by (rule fold_Map_delete_filter [OF d])
  also have "\<dots> = filter (\<lambda>e. \<not> touches i (snd e)) (relationships s)"
    by (rule filter_keys_of_matching [OF d])
  finally show ?thesis .
qed


lemma Map_get_absent: "k \<notin> fst ` set m \<Longrightarrow> Map_get m k = None"
  by (induction m) auto

lemma Map_get_filter_values:
  "distinct (map fst m) \<Longrightarrow>
   Map_get (filter (\<lambda>e. Q (snd e)) m) k =
     (case Map_get m k of None \<Rightarrow> None | Some v \<Rightarrow> if Q v then Some v else None)"
proof (induction m)
  case Nil
  then show ?case by simp
next
  case (Cons e m)
  obtain k' v' where e: "e = (k', v')" by (cases e)
  show ?case
  proof (cases "k' = k")
    case True
    then have "k \<notin> fst ` set (filter (\<lambda>e. Q (snd e)) m)" using Cons.prems e by auto
    then have "Map_get (filter (\<lambda>e. Q (snd e)) m) k = None" by (rule Map_get_absent)
    then show ?thesis using True e by simp
  next
    case False
    then show ?thesis using Cons e by simp
  qed
qed


section \<open>Deleting a table cascades\<close>

text \<open>
  C9. removeTable(id) removes the table with that id, if present, and exactly those
  relationships whose sourceTableId or targetTableId equals id; every other table and
  every relationship with neither endpoint equal to id stays as it is, in its place. (The
  hypotheses say that the two maps are maps: a key occurs once.)
\<close>

theorem removeTable_cascade:
  assumes "keysDistinct (tables s)" and "keysDistinct (relationships s)"
  shows "tables (removeTable i s) = filter (\<lambda>e. fst e \<noteq> i) (tables s) \<and>
         relationships (removeTable i s) =
           filter (\<lambda>e. \<not> touches i (snd e)) (relationships s) \<and>
         getTable (removeTable i s) j = (if j = i then None else getTable s j) \<and>
         getRelationship (removeTable i s) k =
           (case getRelationship s k of None \<Rightarrow> None
            | Some rel \<Rightarrow> if touches i rel then None else Some rel) \<and>
         schema_name (removeTable i s) = schema_name s \<and> metadata (removeTable i s) = metadata s"
proof -
  have dt: "distinct (map fst (tables s))" and dr: "distinct (map fst (relationships s))"
    using assms by (simp_all add: keysDistinct_def Map_keys_def)
  have t: "tables (removeTable i s) = filter (\<lambda>e. fst e \<noteq> i) (tables s)"
    using removeTable_fields [of i s] Map_delete_filter [OF dt] by simp
  have r: "relationships (removeTable i s) =
           filter (\<lambda>e. \<not> touches i (snd e)) (relationships s)"
    by (rule removeTable_relationships [OF assms(2)])
  have gt: "getTable (removeTable i s) j = (if j = i then None else getTable s j)"
    by (simp add: getTable_def t Map_get_filter)
  have gr: "getRelationship (removeTable i s) k =
           (case getRelationship s k of None \<Rightarrow> None
            | Some rel \<Rightarrow> if touches i rel then None else Some rel)"
    using Map_get_filter_values [OF dr, of "\<lambda>rel. \<not> touches i rel" k]
    by (simp add: getRelationship_def r split: option.splits)
  show ?thesis using t r gt gr removeTable_fields [of i s] by simp
qed

theorem removeTable_cascade_witness:
  "keysDistinct (tables ex_blog) \<and> keysDistinct (relationships ex_blog) \<and>
   Map_keys (tables ex_blog) = [''t1'', ''t2'', ''t4''] \<and>
   Map_keys (relationships ex_blog) = [''r1'', ''r2''] \<and>
   tables (removeTable ''t1'' ex_blog) = [(''t2'', ex_posts), (''t4'', ex_comments)] \<and>
   Map_keys (relationships (removeTable ''t1'' ex_blog)) = [''r2''] \<and>
   getTable (removeTable ''t1'' ex_blog) ''t1'' = None \<and>
   getTable (removeTable ''t1'' ex_blog) ''t2'' = Some ex_posts"
proof -
  have a: "keysDistinct (tables ex_blog)" by code_simp
  have b: "keysDistinct (relationships ex_blog)" by code_simp
  have c: "Map_keys (tables ex_blog) = [''t1'', ''t2'', ''t4'']" by code_simp
  have d: "Map_keys (relationships ex_blog) = [''r1'', ''r2'']" by code_simp
  have e: "filter (\<lambda>e. fst e \<noteq> ''t1'') (tables ex_blog) = [(''t2'', ex_posts), (''t4'', ex_comments)]"
    by code_simp
  have f: "Map_keys (filter (\<lambda>e. \<not> touches ''t1'' (snd e)) (relationships ex_blog)) = [''r2'']"
    by code_simp
  have g: "getTable ex_blog ''t2'' = Some ex_posts" by code_simp
  show ?thesis
    using removeTable_cascade [OF a b, of "''t1''" "''t1''" "''r1''"]
      removeTable_cascade [OF a b, of "''t1''" "''t2''" "''r1''"] a b c d e f g
    by simp
qed


section \<open>Deleting a table that is not there\<close>

text \<open>
  C10. removeTable(id) with an id that is not a key of the tables map leaves the tables
  map unchanged and still deletes every relationship whose sourceTableId or
  targetTableId equals id, so it is not a no-op on a schema with dangling relationships.
\<close>

theorem removeTable_absent:
  assumes "keysDistinct (relationships s)" and "getTable s i = None"
  shows "tables (removeTable i s) = tables s \<and>
         relationships (removeTable i s) =
           filter (\<lambda>e. \<not> touches i (snd e)) (relationships s)"
  using assms removeTable_fields [of i s] removeTable_relationships [OF assms(1), of i]
  by (simp add: getTable_def Map_delete_absent)

theorem removeTable_absent_witness:
  "keysDistinct (relationships ex_dangling) \<and> getTable ex_dangling ''t1'' = None \<and>
   Map_keys (relationships ex_dangling) = [''r1''] \<and>
   tables (removeTable ''t1'' ex_dangling) = tables ex_dangling \<and>
   relationships (removeTable ''t1'' ex_dangling) = [] \<and>
   removeTable ''t1'' ex_dangling \<noteq> ex_dangling"
proof -
  have a: "keysDistinct (relationships ex_dangling)" by code_simp
  have b: "getTable ex_dangling ''t1'' = None" by code_simp
  have c: "Map_keys (relationships ex_dangling) = [''r1'']" by code_simp
  have d: "filter (\<lambda>e. \<not> touches ''t1'' (snd e)) (relationships ex_dangling) = []" by code_simp
  have e: "relationships (removeTable ''t1'' ex_dangling) = []"
    using removeTable_absent [OF a b] d by simp
  have "relationships ex_dangling \<noteq> []" using c by (auto simp add: Map_keys_def)
  then have f: "removeTable ''t1'' ex_dangling \<noteq> ex_dangling" using e by auto
  show ?thesis using removeTable_absent [OF a b] a b c e f by simp
qed


section \<open>Serialization round trip\<close>

lemma Column_roundtrip: "Column_fromJSON (Column_toJSON c) = c"
  by (simp add: Column_fromJSON_def Column_toJSON_def orDefault_def)

lemma fold_addColumn:
  "fold (\<lambda>colData tb. addColumn (Column_fromJSON colData) tb) (map Column_toJSON cs) tb =
     tb\<lparr>columns := columns tb @ cs\<rparr>"
  by (induction cs arbitrary: tb) (simp_all add: addColumn_def Column_roundtrip)

lemma Table_roundtrip: "Table_fromJSON (Table_toJSON t) = t"
  by (simp add: Table_fromJSON_def Table_toJSON_def Let_def orDefault_def fold_addColumn
      new_Table_def)

lemma Relationship_roundtrip: "Relationship_fromJSON (Relationship_toJSON r) = r"
  by (simp add: Relationship_fromJSON_def Relationship_toJSON_def)

lemma Map_set_fresh: "k \<notin> fst ` set m \<Longrightarrow> Map_set k v m = m @ [(k, v)]"
  by (induction m) auto

lemma fold_Map_set_fresh:
  "distinct (map fst m @ map key vs) \<Longrightarrow>
   fold (\<lambda>v acc. Map_set (key v) v acc) vs m = m @ map (\<lambda>v. (key v, v)) vs"
proof (induction vs arbitrary: m)
  case Nil
  then show ?case by simp
next
  case (Cons v vs)
  have fresh: "key v \<notin> fst ` set m" using Cons.prems by auto
  have "distinct (map fst (m @ [(key v, v)]) @ map key vs)" using Cons.prems by auto
  from Cons.IH [OF this] show ?case by (simp add: Map_set_fresh [OF fresh])
qed

lemma fold_addTable:
  "fold (\<lambda>tableData sch. addTable (Table_fromJSON tableData) sch) (map Table_toJSON ts) s =
     s\<lparr>tables := fold (\<lambda>t acc. Map_set (tab_id t) t acc) ts (tables s)\<rparr>"
  by (induction ts arbitrary: s) (simp_all add: addTable_def Table_roundtrip)

lemma fold_addRelationship:
  "fold (\<lambda>relData sch. addRelationship (Relationship_fromJSON relData) sch)
        (map Relationship_toJSON rs) s =
     s\<lparr>relationships := fold (\<lambda>r acc. Map_set (rel_id r) r acc) rs (relationships s)\<rparr>"
  by (induction rs arbitrary: s) (simp_all add: addRelationship_def Relationship_roundtrip)

lemma rebuild_keyed:
  assumes "distinct (map fst m)" and "list_all (\<lambda>e. fst e = key (snd e)) m"
  shows "fold (\<lambda>v acc. Map_set (key v) v acc) (map snd m) [] = m"
proof -
  have k: "map key (map snd m) = map fst m"
    using assms(2) by (induction m) auto
  have d: "distinct (map fst ([] :: ('a \<times> 'b) list) @ map key (map snd m))"
    unfolding k using assms(1) by simp
  have "fold (\<lambda>v acc. Map_set (key v) v acc) (map snd m) [] =
          [] @ map (\<lambda>v. (key v, v)) (map snd m)"
    by (rule fold_Map_set_fresh [OF d])
  also have "\<dots> = m" using assms(2) by (induction m) auto
  finally show ?thesis .
qed

lemma Schema_roundtrip:
  assumes "wf_Schema s"
  shows "Schema_fromJSON (Schema_toJSON s) =
           s\<lparr>schema_name := (if schema_name s = [] then ''Untitled Schema'' else schema_name s)\<rparr>"
proof -
  have t: "fold (\<lambda>t acc. Map_set (tab_id t) t acc) (map snd (tables s)) [] = tables s"
    using assms by (intro rebuild_keyed) (simp_all add: wf_Schema_def keysDistinct_def Map_keys_def)
  have r: "fold (\<lambda>r acc. Map_set (rel_id r) r acc) (map snd (relationships s)) [] = relationships s"
    using assms by (intro rebuild_keyed) (simp_all add: wf_Schema_def keysDistinct_def Map_keys_def)
  show ?thesis
    by (simp add: Schema_fromJSON_def Schema_toJSON_def Let_def orDefault_def fold_addTable
        fold_addRelationship new_Schema_def Map_values_def t r del: map_map)
qed


lemma hasCycle_same_maps:
  "tables s' = tables s \<Longrightarrow> relationships s' = relationships s \<Longrightarrow>
   hasCycle depth s' tableId path st = hasCycle depth s tableId path st"
proof (induction depth arbitrary: tableId path st)
  case 0
  then show ?case by (simp add: hasCycle.simps [of 0] getTable_def)
next
  case (Suc d)
  show ?case
    by (simp add: hasCycle.simps [of "Suc d"] getTable_def Suc.prems Suc.IH [OF Suc.prems]
        cong del: if_weak_cong)
qed

lemma validateSchema_same_maps:
  assumes "tables s' = tables s" and "relationships s' = relationships s"
  shows "validateSchema s' = validateSchema s"
proof -
  have "Relationship_validate r s' = Relationship_validate r s" for r
    by (simp add: Relationship_validate_def getTable_def assms)
  then have vr: "validateRelationships s' = validateRelationships s"
    by (simp add: validateRelationships_def assms)
  have vt: "validateTables s' = validateTables s"
    by (simp add: validateTables_def assms)
  have co: "checkOrphanTables s' = checkOrphanTables s"
    by (simp add: checkOrphanTables_def assms)
  have cc: "checkCircularDependencies s' = checkCircularDependencies s"
    by (simp add: checkCircularDependencies_def checkCircularDependencies_depth_def assms
        hasCycle_same_maps [OF assms] cong del: if_weak_cong)
  show ?thesis unfolding validateSchema_def vr vt co cc by (rule refl)
qed

lemma keys_Map_set: "fst ` set (Map_set k v m) = insert k (fst ` set m)"
proof (induction m)
  case Nil
  then show ?case by simp
next
  case (Cons e m)
  obtain k' v' where e: "e = (k', v')" by (cases e)
  show ?case using Cons.IH e by (cases "k' = k") auto
qed

lemma keysDistinct_Map_set: "keysDistinct m \<Longrightarrow> keysDistinct (Map_set k v m)"
  unfolding keysDistinct_def Map_keys_def
proof (induction m)
  case Nil
  then show ?case by simp
next
  case (Cons e m)
  obtain k' v' where e: "e = (k', v')" by (cases e)
  show ?case using Cons e keys_Map_set [of k v m] by (cases "k' = k") auto
qed

lemma keysDistinct_Map_delete: "keysDistinct m \<Longrightarrow> keysDistinct (Map_delete k m)"
  by (simp add: keysDistinct_def Map_keys_def Map_delete_filter distinct_map_filter)

lemma list_all_Map_set: "list_all P m \<Longrightarrow> P (k, v) \<Longrightarrow> list_all P (Map_set k v m)"
  by (induction m) auto

lemma list_all_Map_delete: "list_all P m \<Longrightarrow> list_all P (Map_delete k m)"
  by (induction m) auto

lemma wf_Schema_fold_delete:
  "keysDistinct m \<and> list_all P m \<Longrightarrow>
   keysDistinct (fold Map_delete ks m) \<and> list_all P (fold Map_delete ks m)"
  by (induction ks arbitrary: m) (simp_all add: keysDistinct_Map_delete list_all_Map_delete)

text \<open>Every operation of the mutation surface yields a schema of the data model.\<close>

lemma wf_Schema_operations:
  "wf_Schema new_Schema"
  "wf_Schema s \<Longrightarrow> wf_Schema (addTable t s)"
  "wf_Schema s \<Longrightarrow> wf_Schema (addRelationship r s)"
  "wf_Schema s \<Longrightarrow> wf_Schema (removeRelationship i s)"
  "wf_Schema s \<Longrightarrow> wf_Schema (removeTable i s)"
proof -
  show "wf_Schema new_Schema"
    by (simp add: wf_Schema_def new_Schema_def keysDistinct_def Map_keys_def)
  show "wf_Schema s \<Longrightarrow> wf_Schema (addTable t s)"
    by (simp add: wf_Schema_def addTable_def keysDistinct_Map_set list_all_Map_set)
  show "wf_Schema s \<Longrightarrow> wf_Schema (addRelationship r s)"
    by (simp add: wf_Schema_def addRelationship_def keysDistinct_Map_set list_all_Map_set)
  show "wf_Schema s \<Longrightarrow> wf_Schema (removeRelationship i s)"
    by (simp add: wf_Schema_def removeRelationship_def keysDistinct_Map_delete list_all_Map_delete)
  show "wf_Schema s \<Longrightarrow> wf_Schema (removeTable i s)"
    using removeTable_fields [of i s]
      wf_Schema_fold_delete [of "relationships s" "\<lambda>e. fst e = rel_id (snd e)"]
    by (simp add: wf_Schema_def keysDistinct_Map_delete list_all_Map_delete)
qed

text \<open>
  C7. For every schema of the data model, Schema.fromJSON(schema.toJSON()) has the same
  tables and relationships in the same order, dangling relationships included (nothing
  is rejected), and so the same whole-schema validation result: the same valid flag and
  the same ordered errors and warnings.
\<close>

theorem roundtrip_validation:
  assumes "wf_Schema s"
  shows "(\<exists>r. validateSchema s = Some r \<and>
              validateSchema (Schema_fromJSON (Schema_toJSON s)) = Some r) \<and>
         tables (Schema_fromJSON (Schema_toJSON s)) = tables s \<and>
         relationships (Schema_fromJSON (Schema_toJSON s)) = relationships s"
proof -
  have t: "tables (Schema_fromJSON (Schema_toJSON s)) = tables s"
    and r: "relationships (Schema_fromJSON (Schema_toJSON s)) = relationships s"
    by (simp_all add: Schema_roundtrip [OF assms])
  obtain res where "validateSchema s = Some res"
    using validateSchema_result [of s] by blast
  then show ?thesis using validateSchema_same_maps [OF t r] t r by simp
qed

theorem roundtrip_validation_witness:
  "wf_Schema ex_dangling \<and>
   map code (errors (Relationship_validate ex_rel ex_dangling)) = [''TARGET_TABLE_NOT_FOUND''] \<and>
   relationships (Schema_fromJSON (Schema_toJSON ex_dangling)) = relationships ex_dangling \<and>
   validateSchema (Schema_fromJSON (Schema_toJSON ex_dangling)) = validateSchema ex_dangling \<and>
   validateSchema ex_dangling \<noteq> None"
proof -
  have a: "wf_Schema ex_dangling" by code_simp
  have b: "map code (errors (Relationship_validate ex_rel ex_dangling)) = [''TARGET_TABLE_NOT_FOUND'']"
    by code_simp
  show ?thesis using roundtrip_validation [OF a] a b by auto
qed


section \<open>The depth bound does not change the result\<close>

text \<open>
  A traversal that returns under one bound returns the same under any larger bound, so
  the result of the pass is the result of the unbounded recursion of the source.
\<close>

lemma forEachM_mono:
  assumes "forEachM f xs st = Some st'"
    and "\<And>x a b. x \<in> set xs \<Longrightarrow> f x a = Some b \<Longrightarrow> g x a = Some b"
  shows "forEachM g xs st = Some st'"
  using assms
proof (induction xs arbitrary: st)
  case Nil
  then show ?case by simp
next
  case (Cons x xs)
  from Cons.prems(1) obtain b where b: "f x st = Some b" "forEachM f xs b = Some st'"
    by (auto split: option.splits)
  have "g x st = Some b" using Cons.prems(2) b(1) by simp
  moreover have "forEachM g xs b = Some st'"
    using Cons.IH [OF b(2)] Cons.prems(2) by simp
  ultimately show ?case by simp
qed

lemma hasCycle_early:
  "tableId \<in> recursionStack st \<or> tableId \<in> visited st \<Longrightarrow>
   hasCycle d s tableId path st = hasCycle d' s tableId path st"
  by (auto simp add: hasCycle.simps [of d] hasCycle.simps [of d'] Let_def)

lemma hasCycle_depth_mono:
  "hasCycle depth s tableId path st = Some r \<Longrightarrow>
   hasCycle (depth + k) s tableId path st = Some r"
proof (induction depth arbitrary: tableId path st r)
  case 0
  show ?case
  proof (cases "tableId \<in> recursionStack st \<or> tableId \<in> visited st")
    case True
    then show ?thesis using "0.prems" hasCycle_early [of tableId st 0 s path "0 + k"] by simp
  next
    case False
    then show ?thesis using "0.prems" by (simp add: hasCycle.simps [of 0])
  qed
next
  case (Suc d)
  show ?case
  proof (cases "tableId \<in> recursionStack st \<or> tableId \<in> visited st")
    case True
    then show ?thesis
      using Suc.prems hasCycle_early [of tableId st "Suc d" s path "Suc d + k"] by simp
  next
    case False
    define st2 where "st2 = st\<lparr>visited := insert tableId (visited st),
                                recursionStack := insert tableId (recursionStack st)\<rparr>"
    define f where "f = (\<lambda>n (rel::Relationship) (s'::DfsState). if sourceTableId rel = tableId
                       then map_option snd (hasCycle n s (targetTableId rel) (path @ [tableId]) s')
                       else Some s')"
    from Suc.prems False obtain st3 where
      st3: "forEachM (f d) (Map_values (relationships s)) st2 = Some st3"
      and r: "r = (False, st3\<lparr>recursionStack := recursionStack st3 - {tableId}\<rparr>)"
      by (auto simp add: hasCycle.simps [of "Suc d"] Let_def f_def st2_def split: option.splits)
    have "forEachM (f (d + k)) (Map_values (relationships s)) st2 = Some st3"
    proof (rule forEachM_mono [OF st3])
      fix x a b assume "f d x a = Some b"
      then show "f (d + k) x a = Some b"
        using Suc.IH by (auto simp add: f_def split: if_splits)
    qed
    then show ?thesis using False r
      by (simp add: hasCycle.simps [of "Suc (d + k)"] Let_def f_def st2_def)
  qed
qed

lemma checkCircularDependencies_depth_mono:
  assumes "checkCircularDependencies_depth depth s = Some r"
  shows "checkCircularDependencies_depth (depth + k) s = Some r"
proof -
  define f where "f = (\<lambda>n tableId (st::DfsState).
               if tableId \<notin> visited st then map_option snd (hasCycle n s tableId [] st)
               else Some st)"
  define st0 :: DfsState where "st0 = \<lparr>visited = {}, recursionStack = {}, dfs_warnings = []\<rparr>"
  from assms obtain st where st: "forEachM (f depth) (Map_keys (tables s)) st0 = Some st"
    and r: "r = \<lparr>valid = True, errors = [], warnings = dfs_warnings st\<rparr>"
    by (auto simp add: checkCircularDependencies_depth_def f_def st0_def split: option.splits)
  have "forEachM (f (depth + k)) (Map_keys (tables s)) st0 = Some st"
  proof (rule forEachM_mono [OF st])
    fix x a b assume "f depth x a = Some b"
    then show "f (depth + k) x a = Some b"
      using hasCycle_depth_mono by (auto simp add: f_def split: if_splits)
  qed
  then show ?thesis using r
    by (simp add: checkCircularDependencies_depth_def f_def st0_def)
qed

lemma checkCircularDependencies_any_depth:
  "checkCircularDependencies_depth (Suc (length (relationships s)) + k) s =
     checkCircularDependencies s"
proof -
  obtain r where r: "checkCircularDependencies s = Some r"
    using checkCircularDependencies_total by blast
  then show ?thesis
    using checkCircularDependencies_depth_mono [of "Suc (length (relationships s))" s r k]
    by (simp add: checkCircularDependencies_def)
qed

lemma fold_invariant:
  "P a \<Longrightarrow> (\<And>x b. P b \<Longrightarrow> P (f x b)) \<Longrightarrow> P (fold f xs a)"
  by (induction xs arbitrary: a) simp_all

lemma wf_Schema_fromJSON: "wf_Schema (Schema_fromJSON j)"
proof -
  have init: "wf_Schema (new_Schema\<lparr>schema_name := n, metadata := m\<rparr>)" for n m
    using wf_Schema_operations(1) by (simp add: wf_Schema_def)
  show ?thesis
    unfolding Schema_fromJSON_def Let_def
  proof (rule fold_invariant [where P = wf_Schema])
    show "wf_Schema
            (fold (\<lambda>tableData sch. addTable (Table_fromJSON tableData) sch)
               (orDefault (sj_tables j) [])
               (new_Schema
                 \<lparr>schema_name :=
                    case sj_name j of None \<Rightarrow> ''Untitled Schema''
                    | Some n \<Rightarrow> if n = [] then ''Untitled Schema'' else n,
                  metadata := orDefault (sj_metadata j) []\<rparr>))"
      by (rule fold_invariant [where P = wf_Schema]) (simp_all add: init wf_Schema_operations(2))
  next
    fix x b assume "wf_Schema b"
    then show "wf_Schema (addRelationship (Relationship_fromJSON x) b)"
      by (rule wf_Schema_operations(3))
  qed
qed

end
